theory Spec2Isabelle
  imports Main "HOL-Library.Sublist"
begin

section \<open>Text: the string operations of \<^verbatim>\<open>server/index.js\<close>\<close>

text \<open>
  Text is a \<^typ>\<open>string\<close> whose characters are the code points U+0000 to U+00FF. On
  these JavaScript's \<^verbatim>\<open>toLowerCase\<close> changes the letters A to Z and U+00C0 to U+00DE (the
  multiplication sign U+00D7 apart) and nothing else, and \<^verbatim>\<open>trim\<close> removes tab, line feed,
  vertical tab, form feed, carriage return, space and the no-break space U+00A0.
  PostgreSQL's \<^verbatim>\<open>lower\<close> and the case folding of \<^verbatim>\<open>ILIKE\<close> are those of a database in
  a UTF-8 locale, where they change the same letters in the same way.
\<close>

definition capitals :: string where
  \<comment> \<open>the letters of U+0000 to U+00FF that have a lower case: A to Z, and U+00C0 to U+00DE
      without the multiplication sign U+00D7\<close>
  "capitals = ''ABCDEFGHIJKLMNOPQRSTUVWXYZ'' @
     [CHR 0xC0, CHR 0xC1, CHR 0xC2, CHR 0xC3, CHR 0xC4, CHR 0xC5, CHR 0xC6, CHR 0xC7,
      CHR 0xC8, CHR 0xC9, CHR 0xCA, CHR 0xCB, CHR 0xCC, CHR 0xCD, CHR 0xCE, CHR 0xCF,
      CHR 0xD0, CHR 0xD1, CHR 0xD2, CHR 0xD3, CHR 0xD4, CHR 0xD5, CHR 0xD6, CHR 0xD8,
      CHR 0xD9, CHR 0xDA, CHR 0xDB, CHR 0xDC, CHR 0xDD, CHR 0xDE]"

definition smalls :: string where
  \<comment> \<open>their lower case, in the same order: a to z, and U+00E0 to U+00FE without U+00F7\<close>
  "smalls = ''abcdefghijklmnopqrstuvwxyz'' @
     [CHR 0xE0, CHR 0xE1, CHR 0xE2, CHR 0xE3, CHR 0xE4, CHR 0xE5, CHR 0xE6, CHR 0xE7,
      CHR 0xE8, CHR 0xE9, CHR 0xEA, CHR 0xEB, CHR 0xEC, CHR 0xED, CHR 0xEE, CHR 0xEF,
      CHR 0xF0, CHR 0xF1, CHR 0xF2, CHR 0xF3, CHR 0xF4, CHR 0xF5, CHR 0xF6, CHR 0xF8,
      CHR 0xF9, CHR 0xFA, CHR 0xFB, CHR 0xFC, CHR 0xFD, CHR 0xFE]"

definition lower_char :: "char \<Rightarrow> char" where
  "lower_char c = (case map_of (zip capitals smalls) c of None \<Rightarrow> c | Some d \<Rightarrow> d)"

definition toLowerCase :: "string \<Rightarrow> string" where
  "toLowerCase s = map lower_char s"

definition isWhiteSpace :: "char \<Rightarrow> bool" where
  \<comment> \<open>tab, line feed, vertical tab, form feed, carriage return, space, no-break space\<close>
  "isWhiteSpace c \<longleftrightarrow>
     c \<in> set [CHR 0x09, CHR 0x0A, CHR 0x0B, CHR 0x0C, CHR 0x0D, CHR '' '', CHR 0xA0]"

definition trim :: "string \<Rightarrow> string" where
  "trim s = rev (dropWhile isWhiteSpace (rev (dropWhile isWhiteSpace s)))"

subsection \<open>The regular expression \<^verbatim>\<open>/search for|find|show|get|query/\<close>\<close>

definition triggers :: "string list" where
  "triggers = [''search for'', ''find'', ''show'', ''get'', ''query'']"

definition trigger_at :: "string \<Rightarrow> string option" where
  \<comment> \<open>the alternative that matches at the start of the text, tried in the order written\<close>
  "trigger_at s = find (\<lambda>k. prefix k s) triggers"

fun match_trigger :: "string \<Rightarrow> string option" where
  \<comment> \<open>\<^verbatim>\<open>text.match(re)\<close> without the \<^verbatim>\<open>g\<close> flag: the leftmost match, or null\<close>
  "match_trigger [] = None"
| "match_trigger (c # cs) =
     (case trigger_at (c # cs) of
        Some k \<Rightarrow> Some k
      | None \<Rightarrow> match_trigger cs)"

fun strip_triggers :: "string \<Rightarrow> string" where
  \<comment> \<open>\<^verbatim>\<open>text.replace(re, '')\<close> with the \<^verbatim>\<open>g\<close> flag: every match, left to right, each
      search resuming where the previous match ended\<close>
  "strip_triggers [] = []"
| "strip_triggers (c # cs) =
     (case trigger_at (c # cs) of
        None \<Rightarrow> c # strip_triggers cs
      | Some k \<Rightarrow> strip_triggers (drop (length k - 1) cs))"

subsection \<open>SQL \<^verbatim>\<open>LIKE\<close> and \<^verbatim>\<open>ILIKE\<close>\<close>

text \<open>
  In a pattern \<^verbatim>\<open>%\<close> stands for any run of characters, \<^verbatim>\<open>_\<close> for any one character, and
  a backslash makes the character after it literal. A pattern that ends in a lone
  backslash is an error in PostgreSQL; every pattern this program builds ends in an
  appended \<^verbatim>\<open>%\<close>, so that case is given the value \<^term>\<open>False\<close> and is never reached.
\<close>

fun like :: "string \<Rightarrow> string \<Rightarrow> bool" where
  \<comment> \<open>\<^term>\<open>like p s\<close> is the SQL expression \<^verbatim>\<open>s LIKE p\<close>\<close>
  "like [] s \<longleftrightarrow> s = []"
| "like (p # ps) [] \<longleftrightarrow> p = CHR ''%'' \<and> like ps []"
| "like (p # ps) (c # cs) \<longleftrightarrow>
     (if p = CHR ''%'' then like ps (c # cs) \<or> like (p # ps) cs
      else if p = CHR ''_'' then like ps cs
      else if p = CHR 0x5C then (case ps of [] \<Rightarrow> False | q # qs \<Rightarrow> c = q \<and> like qs cs)
      else c = p \<and> like ps cs)"

definition lower :: "string \<Rightarrow> string" where
  \<comment> \<open>the SQL function \<^verbatim>\<open>lower\<close>\<close>
  "lower s = map lower_char s"

definition ilike :: "string \<Rightarrow> string \<Rightarrow> bool" where
  \<comment> \<open>\<^term>\<open>ilike p s\<close> is \<^verbatim>\<open>s ILIKE p\<close>: \<^verbatim>\<open>LIKE\<close> after folding the case of both sides\<close>
  "ilike p s \<longleftrightarrow> like (lower p) (lower s)"

section \<open>Numbers: what \<^verbatim>\<open>GET /api/messages\<close> computes with\<close>

text \<open>
  A JavaScript number that \<^verbatim>\<open>parseInt\<close> and the arithmetic on its results can produce:
  \<^verbatim>\<open>NaN\<close>, an infinity, or a double with an integer value, kept as that integer (the two
  zeros are one). \<^term>\<open>number_value n\<close> is the double nearest to the integer \<^term>\<open>n\<close>, the one
  with the even significand of two equally near, and an infinity from \<open>2\<^sup>1\<^sup>0\<^sup>2\<^sup>4 - 2\<^sup>9\<^sup>7\<^sup>0\<close> on.
\<close>

datatype js_number = NaN | Infinity | NegInfinity | Finite int

function decimal_digits :: "int \<Rightarrow> string" where
  "decimal_digits n =
     (if n < 10 then [''0123456789'' ! nat n]
      else decimal_digits (n div 10) @ [''0123456789'' ! nat (n mod 10)])"
  by pat_completeness auto
termination
  by (relation "measure nat") auto

declare decimal_digits.simps [simp del]

function bit_length :: "int \<Rightarrow> nat" where
  "bit_length n = (if n \<le> 0 then 0 else Suc (bit_length (n div 2)))"
  by pat_completeness auto
termination
  by (relation "measure nat") auto

declare bit_length.simps [simp del]

definition round_half_even :: "int \<Rightarrow> int \<Rightarrow> int" where
  \<comment> \<open>the integer nearest to \<open>num / den\<close>, the even one of two equally near\<close>
  "round_half_even num den =
     (let q = num div den; r = num mod den
      in if den < 2 * r \<or> (2 * r = den \<and> odd q) then q + 1 else q)"

definition number_value :: "int \<Rightarrow> js_number" where
  "number_value n =
     (let a = \<bar>n\<bar>
      in if a < 2 ^ 53 then Finite n
         else
           (let e = bit_length a - 53;
                v = round_half_even a (2 ^ e) * 2 ^ e
            in if 2 ^ 1024 \<le> v then (if n < 0 then NegInfinity else Infinity)
               else Finite (sgn n * v)))"

definition js_negative :: "js_number \<Rightarrow> bool" where
  "js_negative x = (case x of NegInfinity \<Rightarrow> True | Finite n \<Rightarrow> n < 0 | _ \<Rightarrow> False)"

definition js_minus_one :: "js_number \<Rightarrow> js_number" where
  \<comment> \<open>\<^verbatim>\<open>x - 1\<close>\<close>
  "js_minus_one x = (case x of Finite n \<Rightarrow> number_value (n - 1) | _ \<Rightarrow> x)"

definition js_times :: "js_number \<Rightarrow> js_number \<Rightarrow> js_number" where
  \<comment> \<open>\<^verbatim>\<open>x * y\<close>\<close>
  "js_times x y =
     (case (x, y) of
        (NaN, _) \<Rightarrow> NaN
      | (_, NaN) \<Rightarrow> NaN
      | (Finite a, Finite b) \<Rightarrow> number_value (a * b)
      | _ \<Rightarrow>
          if x = Finite 0 \<or> y = Finite 0 then NaN
          else if js_negative x = js_negative y then Infinity
          else NegInfinity)"

text \<open>
  \<^verbatim>\<open>Math.ceil(x / y)\<close>. The quotient of two positive integers is rounded to a double:
  \<^term>\<open>quotient_parts a b\<close> is its significand \<open>m\<close> and exponent \<open>t\<close>, the double being
  \<open>m \<sqdot> 2\<^sup>t\<close>.
\<close>

definition quotient_parts :: "int \<Rightarrow> int \<Rightarrow> int \<times> int" where
  "quotient_parts a b =
     (let d = int (bit_length a) - int (bit_length b);
          scaled = (\<lambda>t. if 0 \<le> t then (a, b * 2 ^ nat t) else (a * 2 ^ nat (- t), b));
          t0 = d - 53;
          t = (if 2 ^ 53 \<le> fst (scaled t0) div snd (scaled t0) then t0 + 1 else t0)
      in (round_half_even (fst (scaled t)) (snd (scaled t)), t))"

definition parts_floor :: "int \<times> int \<Rightarrow> int" where
  "parts_floor mt = (case mt of (m, t) \<Rightarrow> if 0 \<le> t then m * 2 ^ nat t else m div 2 ^ nat (- t))"

definition parts_ceiling :: "int \<times> int \<Rightarrow> int" where
  "parts_ceiling mt =
     (case mt of (m, t) \<Rightarrow> if 0 \<le> t then m * 2 ^ nat t else - ((- m) div 2 ^ nat (- t)))"

definition js_ceil_quotient :: "js_number \<Rightarrow> js_number \<Rightarrow> js_number" where
  "js_ceil_quotient x y =
     (case (x, y) of
        (NaN, _) \<Rightarrow> NaN
      | (_, NaN) \<Rightarrow> NaN
      | (Finite a, Finite b) \<Rightarrow>
          if b = 0 then (if a = 0 then NaN else if 0 < a then Infinity else NegInfinity)
          else if a = 0 then Finite 0
          else if (a < 0) = (b < 0) then Finite (parts_ceiling (quotient_parts \<bar>a\<bar> \<bar>b\<bar>))
          else Finite (- parts_floor (quotient_parts \<bar>a\<bar> \<bar>b\<bar>))
      | (Finite a, _) \<Rightarrow> Finite 0
      | (_, Finite b) \<Rightarrow> if js_negative x = (b < 0) then Infinity else NegInfinity
      | _ \<Rightarrow> NaN)"

text \<open>
  The client library sends a number as the text of \<^verbatim>\<open>toString\<close>: the shortest decimal
  whose value as a double is the number, the nearest one of several, written out with its
  zeros below \<open>10\<^sup>2\<^sup>1\<close> and with an exponent from there on. Integers below \<open>2\<^sup>5\<^sup>3\<close> are their own
  shortest decimal.
\<close>

definition decimal_candidate :: "int \<Rightarrow> nat \<Rightarrow> int option" where
  \<comment> \<open>the multiple of \<open>10\<^sup>j\<close> nearest to the double \<^term>\<open>a\<close> among those whose value is \<^term>\<open>a\<close>\<close>
  "decimal_candidate a j =
     (let p = 10 ^ j; lo = (a div p) * p; hi = lo + p;
          ok_lo = (number_value lo = Finite a);
          ok_hi = (number_value hi = Finite a)
      in if ok_lo \<and> ok_hi
         then (if a - lo < hi - a \<or> (a - lo = hi - a \<and> even (a div p)) then Some lo else Some hi)
         else if ok_lo then Some lo
         else if ok_hi then Some hi
         else None)"

fun shortest_from :: "int \<Rightarrow> nat \<Rightarrow> int" where
  "shortest_from a 0 = a"
| "shortest_from a (Suc j) =
     (case decimal_candidate a (Suc j) of
        Some v \<Rightarrow> v
      | None \<Rightarrow> shortest_from a j)"

definition decimal_of :: "int \<Rightarrow> int" where
  "decimal_of a = (if a < 2 ^ 53 then a else shortest_from a (length (decimal_digits a)))"

definition number_text :: "js_number \<Rightarrow> string" where
  "number_text x =
     (case x of
        NaN \<Rightarrow> ''NaN''
      | Infinity \<Rightarrow> ''Infinity''
      | NegInfinity \<Rightarrow> ''-Infinity''
      | Finite n \<Rightarrow>
          (let v = decimal_of \<bar>n\<bar>;
               digits = decimal_digits v;
               s = rev (dropWhile (\<lambda>c. c = CHR ''0'') (rev digits))
           in (if n < 0 then ''-'' else []) @
              (if v < 10 ^ 21 then digits
               else take 1 s @ (if length s = 1 then [] else ''.'' @ drop 1 s) @
                    ''e+'' @ decimal_digits (int (length digits) - 1))))"

definition bigint_in :: "js_number \<Rightarrow> string + int" where
  \<comment> \<open>what PostgreSQL reads from that text for a \<^verbatim>\<open>bigint\<close> parameter, or its complaint\<close>
  "bigint_in x =
     (case x of
        Finite n \<Rightarrow>
          (let v = decimal_of \<bar>n\<bar>; w = (if n < 0 then - v else v)
           in if 10 ^ 21 \<le> v
              then Inl (''invalid input syntax for type bigint: '' @ [CHR 0x22] @ number_text x @ [CHR 0x22])
              else if - (2 ^ 63) \<le> w \<and> w < 2 ^ 63 then Inr w
              else Inl (''value '' @ [CHR 0x22] @ number_text x @ [CHR 0x22] @
                        '' is out of range for type bigint''))
      | _ \<Rightarrow> Inl (''invalid input syntax for type bigint: '' @ [CHR 0x22] @ number_text x @ [CHR 0x22]))"

section \<open>The store\<close>

text \<open>
  The three tables of \<^verbatim>\<open>initDb\<close>. Rows are kept in insertion order, which stands for the
  store's natural row order wherever a query has no \<^verbatim>\<open>ORDER BY\<close>.
\<close>

record message_row =
  msg_id :: nat
  content :: string
  sender :: string
  timestamp :: nat

record response_row =
  resp_id :: nat
  pattern :: string
  response :: string

record user_data_row =
  row_id :: nat
  category :: string
  data_key :: string
  data_value :: string

datatype statement =
    CreateTables
  | SeedUserData
  | SeedResponses
  | InsertMessage string string
  | SearchUserData string
  | ExactQuery string
  | FuzzyQuery string
  | SelectMessages js_number js_number
  | CountMessages
  | TruncateMessages

text \<open>
  The process state: the tables with their \<^verbatim>\<open>SERIAL\<close> counters, and the environment of
  the process. \<^term>\<open>faults\<close> is the environment's script: its head says whether the next
  statement given to \<^verbatim>\<open>pool.query\<close> is rejected, and with which message, be it for a lost
  connection, a missing table or a text that the store refuses (one with the character
  U+0000); once the script is used up every statement is accepted. What the store does
  with the two numbers of the history query depends on nothing but them and is written
  out in \<open>select_messages\<close>. \<^term>\<open>statements\<close> records what was sent to the
  pool and \<^term>\<open>console\<close> what was written by \<^verbatim>\<open>console.error\<close>. \<^term>\<open>clock\<close> is the
  reading that \<^verbatim>\<open>CURRENT_TIMESTAMP\<close> gives; it moves on with every statement.
\<close>

record server =
  messages :: "message_row list"
  responses :: "response_row list"
  user_data :: "user_data_row list"
  messages_id_seq :: nat
  responses_id_seq :: nat
  user_data_id_seq :: nat
  clock :: nat
  faults :: "string option list"
  statements :: "statement list"
  console :: "string list"

datatype error = Error string

definition pool_query :: "statement \<Rightarrow> server \<Rightarrow> string option \<times> server" where
  \<comment> \<open>sends one statement; the result is the store's error message when it is rejected\<close>
  "pool_query q s =
     (let s' = s\<lparr>statements := statements s @ [q], clock := Suc (clock s)\<rparr>
      in case faults s of
           [] \<Rightarrow> (None, s')
         | f # fs \<Rightarrow> (f, s'\<lparr>faults := fs\<rparr>))"

definition console_error :: "string \<Rightarrow> server \<Rightarrow> server" where
  "console_error label s = s\<lparr>console := console s @ [label]\<rparr>"

section \<open>Bootstrap: \<^verbatim>\<open>initDb\<close>\<close>

definition seed_user_data :: "(string \<times> string \<times> string) list" where
  "seed_user_data =
     [(''personal'', ''name'', ''John Doe''),
      (''personal'', ''email'', ''john@example.com''),
      (''preferences'', ''theme'', ''dark''),
      (''preferences'', ''language'', ''english'')]"

definition hello_response :: string where
  "hello_response =
     ''Hi there! I'' @ [CHR 0x27] @ ''m your chatbot assistant. How can I help you today?''"

definition help_response :: string where
  "help_response = ''I can assist you with general questions, provide information, or just chat. What would you like to know?''"

definition bye_response :: string where
  "bye_response = ''Goodbye! Have a great day! Feel free to come back if you need anything.''"

definition show_data_response :: string where
  "show_data_response = ''Here'' @ [CHR 0x27] @ ''s the data you requested: {data}''"

definition search_response :: string where
  "search_response = ''I'' @ [CHR 0x27] @ ''ll help you search for: {query}''"

definition seed_responses :: "(string \<times> string) list" where
  "seed_responses =
     [(''hello'', hello_response),
      (''help'', help_response),
      (''bye'', bye_response),
      (''show data'', show_data_response),
      (''search'', search_response)]"

definition insert_user_data :: "string \<times> string \<times> string \<Rightarrow> server \<Rightarrow> server" where
  \<comment> \<open>\<^verbatim>\<open>ON CONFLICT DO NOTHING\<close>: the only unique column of \<^verbatim>\<open>user_data\<close> is the
      generated \<^verbatim>\<open>id\<close>, so no row proposed here meets a conflict\<close>
  "insert_user_data v s =
     (case v of (c, k, d) \<Rightarrow>
        s\<lparr>user_data := user_data s @
             [\<lparr>row_id = user_data_id_seq s, category = c, data_key = k, data_value = d\<rparr>],
          user_data_id_seq := Suc (user_data_id_seq s)\<rparr>)"

definition upsert_response :: "string \<times> string \<Rightarrow> server \<Rightarrow> server" where
  \<comment> \<open>\<^verbatim>\<open>ON CONFLICT (pattern) DO UPDATE SET response = EXCLUDED.response\<close>; the
      sequence value drawn for the proposed row is spent in both cases\<close>
  "upsert_response v s =
     (case v of (p, r) \<Rightarrow>
        (if p \<in> set (map pattern (responses s))
         then s\<lparr>responses :=
                  map (\<lambda>row. if pattern row = p then row\<lparr>response := r\<rparr> else row) (responses s),
                responses_id_seq := Suc (responses_id_seq s)\<rparr>
         else s\<lparr>responses := responses s @
                  [\<lparr>resp_id = responses_id_seq s, pattern = p, response = r\<rparr>],
                responses_id_seq := Suc (responses_id_seq s)\<rparr>))"

definition initDb :: "server \<Rightarrow> server" where
  \<comment> \<open>\<^verbatim>\<open>CREATE TABLE IF NOT EXISTS\<close> leaves the rows of an existing table as they are\<close>
  "initDb s =
     (case pool_query CreateTables s of
        (Some e, s1) \<Rightarrow> console_error ''Database initialization error:'' s1
      | (None, s1) \<Rightarrow>
          (case pool_query SeedUserData s1 of
             (Some e, s2) \<Rightarrow> console_error ''Database initialization error:'' s2
           | (None, s2) \<Rightarrow>
               (case pool_query SeedResponses (fold insert_user_data seed_user_data s2) of
                  (Some e, s3) \<Rightarrow> console_error ''Database initialization error:'' s3
                | (None, s3) \<Rightarrow> fold upsert_response seed_responses s3)))"

definition empty_store :: server where
  \<comment> \<open>a database in which nothing has been created yet; \<^verbatim>\<open>SERIAL\<close> counts from 1\<close>
  "empty_store =
     \<lparr>messages = [], responses = [], user_data = [],
      messages_id_seq = 1, responses_id_seq = 1, user_data_id_seq = 1,
      clock = 0, faults = [], statements = [], console = []\<rparr>"

section \<open>\<^verbatim>\<open>saveMessage\<close>, \<^verbatim>\<open>searchUserData\<close>, \<^verbatim>\<open>findResponse\<close>\<close>

definition saveMessage :: "string \<Rightarrow> string \<Rightarrow> server \<Rightarrow> (error + message_row) \<times> server" where
  "saveMessage c who s =
     (case pool_query (InsertMessage c who) s of
        (Some e, s1) \<Rightarrow>
          (Inl (Error ''Failed to save message''), console_error ''Error saving message:'' s1)
      | (None, s1) \<Rightarrow>
          (let row = \<lparr>msg_id = messages_id_seq s1, content = c, sender = who,
                      timestamp = clock s1\<rparr>
           in (Inr row, s1\<lparr>messages := messages s1 @ [row],
                           messages_id_seq := Suc (messages_id_seq s1)\<rparr>)))"

definition user_data_matches :: "string \<Rightarrow> user_data_row \<Rightarrow> bool" where
  \<comment> \<open>the \<^verbatim>\<open>WHERE\<close> clause of \<^verbatim>\<open>searchUserData\<close>, \<^term>\<open>p\<close> being \<^verbatim>\<open>$1\<close>\<close>
  "user_data_matches p r \<longleftrightarrow>
     like (lower p) (lower (category r)) \<or>
     like (lower p) (lower (data_key r)) \<or>
     like (lower p) (lower (data_value r))"

definition searchUserData :: "string \<Rightarrow> server \<Rightarrow> (error + user_data_row list) \<times> server" where
  "searchUserData query s =
     (case pool_query (SearchUserData (''%'' @ query @ ''%'')) s of
        (Some e, s1) \<Rightarrow>
          (Inl (Error ''Failed to search data''), console_error ''Error searching data:'' s1)
      | (None, s1) \<Rightarrow>
          (Inr (filter (user_data_matches (''%'' @ query @ ''%'')) (user_data s1)), s1))"

datatype reply = TextReply string | DataReply "user_data_row list"

definition fallback :: string where
  "fallback = ''I'' @ [CHR 0x27] @
     ''m not sure how to respond to that. Could you please rephrase or ask something else?''"

definition exact_rows :: "string \<Rightarrow> response_row list \<Rightarrow> response_row list" where
  \<comment> \<open>\<^verbatim>\<open>WHERE lower($1) LIKE lower(pattern) || '%' LIMIT 1\<close>\<close>
  "exact_rows p rows = take 1 (filter (\<lambda>r. like (lower (pattern r) @ ''%'') (lower p)) rows)"

definition fuzzy_rows :: "string \<Rightarrow> response_row list \<Rightarrow> response_row list" where
  \<comment> \<open>\<^verbatim>\<open>WHERE $1 ILIKE '%' || pattern || '%' LIMIT 1\<close>\<close>
  "fuzzy_rows p rows = take 1 (filter (\<lambda>r. ilike (''%'' @ pattern r @ ''%'') p) rows)"

definition response_or_fallback :: "response_row list \<Rightarrow> string" where
  \<comment> \<open>\<^verbatim>\<open>result.rows[0]?.response || "I'm not sure ..."\<close>: an empty string is falsy\<close>
  "response_or_fallback rows =
     (case rows of
        [] \<Rightarrow> fallback
      | r # _ \<Rightarrow> if response r = [] then fallback else response r)"

definition regular_response :: "string \<Rightarrow> server \<Rightarrow> (error + reply) \<times> server" where
  \<comment> \<open>the part of \<^verbatim>\<open>findResponse\<close> under the comment "Regular chatbot response"\<close>
  "regular_response message s =
     (case pool_query (ExactQuery (toLowerCase message)) s of
        (Some e, s1) \<Rightarrow> (Inl (Error e), s1)
      | (None, s1) \<Rightarrow>
          (let result = exact_rows (toLowerCase message) (responses s1)
           in if length result = 0
              then (case pool_query (FuzzyQuery (toLowerCase message)) s1 of
                      (Some e, s2) \<Rightarrow> (Inl (Error e), s2)
                    | (None, s2) \<Rightarrow>
                        (Inr (TextReply (response_or_fallback
                                (fuzzy_rows (toLowerCase message) (responses s2)))), s2))
              else (Inr (TextReply (response_or_fallback result)), s1)))"

definition findResponse_try :: "string \<Rightarrow> server \<Rightarrow> (error + reply) \<times> server" where
  \<comment> \<open>the \<^verbatim>\<open>try\<close> block of \<^verbatim>\<open>findResponse\<close>\<close>
  "findResponse_try message s =
     (case match_trigger (toLowerCase message) of
        None \<Rightarrow> regular_response message s
      | Some searchTerms \<Rightarrow>
          (let query = trim (strip_triggers (toLowerCase message))
           in case searchUserData query s of
                (Inl e, s1) \<Rightarrow> (Inl e, s1)
              | (Inr data, s1) \<Rightarrow>
                  if length data > 0 then (Inr (DataReply data), s1)
                  else regular_response message s1))"

definition findResponse :: "string \<Rightarrow> server \<Rightarrow> (error + reply) \<times> server" where
  "findResponse message s =
     (case findResponse_try message s of
        (Inl e, s1) \<Rightarrow>
          (Inl (Error ''Failed to process response''), console_error ''Error finding response:'' s1)
      | (Inr r, s1) \<Rightarrow> (Inr r, s1))"

section \<open>\<^verbatim>\<open>JSON.stringify\<close> of a reply\<close>

function show_nat :: "nat \<Rightarrow> string" where
  \<comment> \<open>the decimal digits of a row id\<close>
  "show_nat n =
     (if n < 10 then [''0123456789'' ! n]
      else show_nat (n div 10) @ [''0123456789'' ! (n mod 10)])"
  by pat_completeness auto
termination
  by (relation "measure id") auto

declare show_nat.simps [simp del]

definition json_escape :: "char \<Rightarrow> string" where
  "json_escape c =
     (if c = CHR 0x22 then [CHR 0x5C, CHR 0x22]
      else if c = CHR 0x5C then [CHR 0x5C, CHR 0x5C]
      else if c = CHR 0x08 then [CHR 0x5C, CHR ''b'']
      else if c = CHR 0x09 then [CHR 0x5C, CHR ''t'']
      else if c = CHR 0x0A then [CHR 0x5C, CHR ''n'']
      else if c = CHR 0x0C then [CHR 0x5C, CHR ''f'']
      else if c = CHR 0x0D then [CHR 0x5C, CHR ''r'']
      else if (of_char c :: nat) < 32
        then [CHR 0x5C] @ ''u00'' @
             [''0123456789abcdef'' ! (of_char c div 16), ''0123456789abcdef'' ! (of_char c mod 16)]
      else [c])"

definition json_string :: "string \<Rightarrow> string" where
  "json_string s = [CHR 0x22] @ concat (map json_escape s) @ [CHR 0x22]"

definition json_row :: "user_data_row \<Rightarrow> string" where
  \<comment> \<open>a row of \<^verbatim>\<open>SELECT * FROM user_data\<close>, its keys in column order\<close>
  "json_row r =
     ''{'' @ json_string ''id'' @ '':'' @ show_nat (row_id r) @ '','' @
     json_string ''category'' @ '':'' @ json_string (category r) @ '','' @
     json_string ''data_key'' @ '':'' @ json_string (data_key r) @ '','' @
     json_string ''data_value'' @ '':'' @ json_string (data_value r) @ ''}''"

fun join_comma :: "string list \<Rightarrow> string" where
  "join_comma [] = []"
| "join_comma [x] = x"
| "join_comma (x # y # ys) = x @ '','' @ join_comma (y # ys)"

definition JSON_stringify :: "reply \<Rightarrow> string" where
  "JSON_stringify r =
     (case r of
        TextReply t \<Rightarrow>
          ''{'' @ json_string ''type'' @ '':'' @ json_string ''text'' @ '','' @
          json_string ''content'' @ '':'' @ json_string t @ ''}''
      | DataReply rows \<Rightarrow>
          ''{'' @ json_string ''type'' @ '':'' @ json_string ''data'' @ '','' @
          json_string ''content'' @ '':'' @ ''['' @ join_comma (map json_row rows) @ '']'' @ ''}'')"

section \<open>The endpoints\<close>

datatype 'a http = Status200 'a | Status400 string | Status500 string string

text \<open>
  \<^verbatim>\<open>POST /api/chat\<close>. The body's \<^verbatim>\<open>message\<close> is taken at the type the interface gives
  it, a string that may be absent. Every failure below the validation is caught once,
  at the end of the handler.
\<close>

definition chat_failed :: "error \<Rightarrow> server \<Rightarrow> reply http \<times> server" where
  \<comment> \<open>the \<^verbatim>\<open>catch\<close> block of the handler\<close>
  "chat_failed e s =
     (case e of Error m \<Rightarrow>
        (Status500 ''Internal server error'' m, console_error ''Error processing message:'' s))"

definition post_chat :: "string option \<Rightarrow> server \<Rightarrow> reply http \<times> server" where
  "post_chat body s =
     (case body of
        None \<Rightarrow> (Status400 ''Message is required'', s)
      | Some message \<Rightarrow>
          if message = [] then (Status400 ''Message is required'', s)
          else
            (case saveMessage message ''user'' s of
               (Inl e, s1) \<Rightarrow> chat_failed e s1
             | (Inr saved, s1) \<Rightarrow>
                 (case findResponse message s1 of
                    (Inl e, s2) \<Rightarrow> chat_failed e s2
                  | (Inr resp, s2) \<Rightarrow>
                      (let reply = (case resp of
                                      DataReply rows \<Rightarrow> DataReply rows
                                    | TextReply t \<Rightarrow> TextReply t)
                       in case saveMessage (JSON_stringify reply) ''bot'' s2 of
                            (Inl e, s3) \<Rightarrow> chat_failed e s3
                          | (Inr saved', s3) \<Rightarrow> (Status200 reply, s3)))))"

text \<open>
  \<^verbatim>\<open>GET /api/messages\<close>. An argument is the integer that \<^verbatim>\<open>parseInt\<close> reads from the
  query parameter, \<^term>\<open>None\<close> where it reads none and returns \<^verbatim>\<open>NaN\<close>; \<^verbatim>\<open>parseInt\<close> returns
  its value as a number. The store reads the two parameters of the query as \<^verbatim>\<open>bigint\<close>, in
  their order, and when it runs the query it refuses a negative \<^verbatim>\<open>OFFSET\<close> and then a
  negative \<^verbatim>\<open>LIMIT\<close>. Rows with equal timestamps keep their insertion order. The count
  comes back as text and goes through \<^verbatim>\<open>parseInt\<close> as well.
\<close>

record history =
  page_messages :: "message_row list"
  currentPage :: js_number
  totalPages :: js_number
  totalMessages :: js_number

definition or_default :: "int option \<Rightarrow> int \<Rightarrow> js_number" where
  \<comment> \<open>\<^verbatim>\<open>parseInt(x) || d\<close>: \<^verbatim>\<open>NaN\<close> and zero are falsy\<close>
  "or_default x d =
     (case x of
        None \<Rightarrow> Finite d
      | Some v \<Rightarrow> if number_value v = Finite 0 then Finite d else number_value v)"

definition select_messages ::
  "js_number \<Rightarrow> js_number \<Rightarrow> server \<Rightarrow> (error + message_row list) \<times> server" where
  \<comment> \<open>\<^verbatim>\<open>SELECT * FROM messages ORDER BY timestamp ASC LIMIT $1 OFFSET $2\<close>\<close>
  "select_messages lim off s =
     (case pool_query (SelectMessages lim off) s of
        (Some e, s1) \<Rightarrow> (Inl (Error e), s1)
      | (None, s1) \<Rightarrow>
          (case bigint_in lim of
             Inl e \<Rightarrow> (Inl (Error e), s1)
           | Inr l \<Rightarrow>
               (case bigint_in off of
                  Inl e \<Rightarrow> (Inl (Error e), s1)
                | Inr k \<Rightarrow>
                    if k < 0 then (Inl (Error ''OFFSET must not be negative''), s1)
                    else if l < 0 then (Inl (Error ''LIMIT must not be negative''), s1)
                    else (Inr (take (nat l) (drop (nat k) (sort_key timestamp (messages s1)))),
                          s1))))"

definition count_messages :: "server \<Rightarrow> (error + int) \<times> server" where
  \<comment> \<open>\<^verbatim>\<open>SELECT COUNT(*) FROM messages\<close>\<close>
  "count_messages s =
     (case pool_query CountMessages s of
        (Some e, s1) \<Rightarrow> (Inl (Error e), s1)
      | (None, s1) \<Rightarrow> (Inr (int (length (messages s1))), s1))"

definition fetch_failed :: "error \<Rightarrow> server \<Rightarrow> 'a http \<times> server" where
  "fetch_failed e s =
     (case e of Error m \<Rightarrow>
        (Status500 ''Internal server error'' m, console_error ''Error fetching messages:'' s))"

definition get_messages :: "int option \<Rightarrow> int option \<Rightarrow> server \<Rightarrow> history http \<times> server" where
  "get_messages page_param limit_param s =
     (let page = or_default page_param 1;
          limit = or_default limit_param 50;
          offset = js_times (js_minus_one page) limit
      in case select_messages limit offset s of
           (Inl e, s1) \<Rightarrow> fetch_failed e s1
         | (Inr rows, s1) \<Rightarrow>
             (case count_messages s1 of
                (Inl e, s2) \<Rightarrow> fetch_failed e s2
              | (Inr cnt, s2) \<Rightarrow>
                  (let totalMessages = number_value cnt
                   in (Status200 \<lparr>page_messages = rows, currentPage = page,
                                  totalPages = js_ceil_quotient totalMessages limit,
                                  totalMessages = totalMessages\<rparr>, s2))))"

definition delete_messages :: "server \<Rightarrow> string http \<times> server" where
  \<comment> \<open>\<^verbatim>\<open>DELETE /api/messages\<close>: \<^verbatim>\<open>TRUNCATE TABLE messages\<close>\<close>
  "delete_messages s =
     (case pool_query TruncateMessages s of
        (Some e, s1) \<Rightarrow>
          (Status500 ''Internal server error'' e, console_error ''Error clearing messages:'' s1)
      | (None, s1) \<Rightarrow> (Status200 ''Chat history cleared successfully'', s1\<lparr>messages := []\<rparr>))"

section \<open>Vocabulary of the properties\<close>

text \<open>
  The notions the properties are stated with: containment and prefix without regard to
  case, a search term or pattern free of the three characters that \<^verbatim>\<open>LIKE\<close> reads
  specially, an environment that rejects nothing, and the statements a run has sent.
\<close>

definition like_plain :: "string \<Rightarrow> bool" where
  "like_plain t \<longleftrightarrow> list_all (\<lambda>c. c \<noteq> CHR ''%'' \<and> c \<noteq> CHR ''_'' \<and> c \<noteq> CHR 0x5C) t"

definition contains_ci :: "string \<Rightarrow> string \<Rightarrow> bool" where
  "contains_ci t s \<longleftrightarrow> sublist (toLowerCase t) (toLowerCase s)"

definition starts_with_ci :: "string \<Rightarrow> string \<Rightarrow> bool" where
  "starts_with_ci p s \<longleftrightarrow> prefix (toLowerCase p) (toLowerCase s)"

definition fact_contains :: "string \<Rightarrow> user_data_row \<Rightarrow> bool" where
  "fact_contains t r \<longleftrightarrow>
     contains_ci t (category r) \<or> contains_ci t (data_key r) \<or> contains_ci t (data_value r)"

definition plain_patterns :: "server \<Rightarrow> bool" where
  "plain_patterns s \<longleftrightarrow> list_all (\<lambda>r. like_plain (pattern r)) (responses s)"

definition no_faults :: "server \<Rightarrow> bool" where
  "no_faults s \<longleftrightarrow> list_all (\<lambda>f. f = None) (faults s)"

definition data_rows :: "string \<Rightarrow> server \<Rightarrow> user_data_row list" where
  \<comment> \<open>what the data search of \<^const>\<open>findResponse_try\<close> finds for a message\<close>
  "data_rows message s =
     (case match_trigger (toLowerCase message) of
        None \<Rightarrow> []
      | Some k \<Rightarrow>
          filter (user_data_matches (''%'' @ trim (strip_triggers (toLowerCase message)) @ ''%''))
            (user_data s))"

definition issued :: "(server \<Rightarrow> 'a \<times> server) \<Rightarrow> server \<Rightarrow> statement list" where
  \<comment> \<open>the statements a run of \<^term>\<open>f\<close> from \<^term>\<open>s\<close> sends to the pool\<close>
  "issued f s = drop (length (statements s)) (statements (snd (f s)))"

definition accepted :: "statement \<Rightarrow> server \<Rightarrow> server" where
  \<comment> \<open>the state after a statement that the store accepted, before its effect on the tables\<close>
  "accepted q s =
     s\<lparr>statements := statements s @ [q], clock := Suc (clock s), faults := tl (faults s)\<rparr>"

definition message_ok :: "message_row \<Rightarrow> bool" where
  "message_ok m \<longleftrightarrow> content m \<noteq> [] \<and> sender m \<in> set [''user'', ''bot'']"

definition fact_of :: "user_data_row \<Rightarrow> string \<times> string \<times> string" where
  "fact_of r = (category r, data_key r, data_value r)"

definition lookup_tables :: "server \<Rightarrow> response_row list \<times> user_data_row list" where
  "lookup_tables s = (responses s, user_data s)"

text \<open>The store that \<^const>\<open>initDb\<close> makes of \<^const>\<open>empty_store\<close> (lemma \<open>initDb_empty_store\<close>).\<close>

definition seeded_store :: server where
  "seeded_store =
     \<lparr>messages = [],
      responses =
        [\<lparr>resp_id = 1, pattern = ''hello'', response = hello_response\<rparr>,
         \<lparr>resp_id = 2, pattern = ''help'', response = help_response\<rparr>,
         \<lparr>resp_id = 3, pattern = ''bye'', response = bye_response\<rparr>,
         \<lparr>resp_id = 4, pattern = ''show data'', response = show_data_response\<rparr>,
         \<lparr>resp_id = 5, pattern = ''search'', response = search_response\<rparr>],
      user_data =
        [\<lparr>row_id = 1, category = ''personal'', data_key = ''name'', data_value = ''John Doe''\<rparr>,
         \<lparr>row_id = 2, category = ''personal'', data_key = ''email'', data_value = ''john@example.com''\<rparr>,
         \<lparr>row_id = 3, category = ''preferences'', data_key = ''theme'', data_value = ''dark''\<rparr>,
         \<lparr>row_id = 4, category = ''preferences'', data_key = ''language'', data_value = ''english''\<rparr>],
      messages_id_seq = 1, responses_id_seq = 6, user_data_id_seq = 5,
      clock = 3, faults = [], statements = [CreateTables, SeedUserData, SeedResponses],
      console = []\<rparr>"

section \<open>Case folding and \<^verbatim>\<open>LIKE\<close>\<close>

lemma lower_char_range: "lower_char c = c \<or> lower_char c \<in> set smalls"
  by (auto simp: lower_char_def split: option.splits dest!: map_of_SomeD set_zip_rightD)

lemma lower_char_small: "d \<in> set smalls \<Longrightarrow> lower_char d = d"
proof -
  have "list_all (\<lambda>d. map_of (zip capitals smalls) d = None) smalls"
    by (simp add: capitals_def smalls_def)
  then show "d \<in> set smalls \<Longrightarrow> lower_char d = d"
    by (simp add: list_all_iff lower_char_def)
qed

lemma lower_char_idem: "lower_char (lower_char c) = lower_char c"
  using lower_char_range [of c] lower_char_small [of "lower_char c"] by auto

lemma lower_toLowerCase: "lower s = toLowerCase s"
  by (simp add: lower_def toLowerCase_def)

lemma lower_char_percent: "lower_char CHR ''%'' = CHR ''%''"
  by (simp add: lower_char_def capitals_def smalls_def)

lemma lower_char_meta:
  "lower_char c = CHR ''%'' \<longleftrightarrow> c = CHR ''%''"
  "lower_char c = CHR ''_'' \<longleftrightarrow> c = CHR ''_''"
  "lower_char c = CHR 0x5C \<longleftrightarrow> c = CHR 0x5C"
proof -
  have fixed: "lower_char CHR ''%'' = CHR ''%''" "lower_char CHR ''_'' = CHR ''_''"
      "lower_char CHR 0x5C = CHR 0x5C"
    by (simp_all add: lower_char_def capitals_def smalls_def)
  have out: "CHR ''%'' \<notin> set smalls" "CHR ''_'' \<notin> set smalls" "CHR 0x5C \<notin> set smalls"
    by (simp_all add: smalls_def)
  show "lower_char c = CHR ''%'' \<longleftrightarrow> c = CHR ''%''"
    using lower_char_range [of c] fixed(1) out(1) by auto
  show "lower_char c = CHR ''_'' \<longleftrightarrow> c = CHR ''_''"
    using lower_char_range [of c] fixed(2) out(2) by auto
  show "lower_char c = CHR 0x5C \<longleftrightarrow> c = CHR 0x5C"
    using lower_char_range [of c] fixed(3) out(3) by auto
qed

lemma like_plain_lower: "like_plain (lower t) = like_plain t"
  by (induction t) (simp_all add: like_plain_def lower_def lower_char_meta)

lemma like_plain_prefix:
  "like_plain t \<Longrightarrow> like (t @ q) s \<longleftrightarrow> prefix t s \<and> like q (drop (length t) s)"
proof (induction t arbitrary: s)
  case Nil
  then show ?case by simp
next
  case (Cons a t)
  then have a: "a \<noteq> CHR ''%''" "a \<noteq> CHR ''_''" "a \<noteq> CHR 0x5C" and t: "like_plain t"
    by (simp_all add: like_plain_def)
  show ?case
  proof (cases s)
    case Nil
    then show ?thesis using a by simp
  next
    case (Cons c cs)
    then show ?thesis using a Cons.IH [OF t, of cs] by auto
  qed
qed

lemma like_percent: "like (CHR ''%'' # q) s \<longleftrightarrow> (\<exists>u. suffix u s \<and> like q u)"
proof (induction s)
  case Nil
  then show ?case by simp
next
  case (Cons c cs)
  have "like (CHR ''%'' # q) (c # cs) \<longleftrightarrow> like q (c # cs) \<or> like (CHR ''%'' # q) cs"
    by simp
  also have "\<dots> \<longleftrightarrow> like q (c # cs) \<or> (\<exists>u. suffix u cs \<and> like q u)"
    using Cons.IH by simp
  also have "\<dots> \<longleftrightarrow> (\<exists>u. suffix u (c # cs) \<and> like q u)"
    by (auto simp: suffix_Cons)
  finally show ?case .
qed

lemma like_any: "like ''%'' s"
  by (simp add: like_percent)

lemma like_starts_with: "like_plain t \<Longrightarrow> like (t @ ''%'') s \<longleftrightarrow> prefix t s"
  by (simp add: like_plain_prefix like_any)

lemma like_contains: "like_plain t \<Longrightarrow> like (''%'' @ t @ ''%'') s \<longleftrightarrow> sublist t s"
  by (simp add: like_percent like_starts_with sublist_altdef')

section \<open>Triggers, the search term and the data search\<close>

lemma trigger_at_None: "trigger_at s = None \<longleftrightarrow> (\<forall>k \<in> set triggers. \<not> prefix k s)"
  by (auto simp: trigger_at_def find_None_iff)

lemma triggers_nonempty: "k \<in> set triggers \<Longrightarrow> k \<noteq> []"
  by (auto simp: triggers_def)

lemma match_trigger_None: "match_trigger s = None \<longleftrightarrow> (\<forall>k \<in> set triggers. \<not> sublist k s)"
proof (induction s)
  case Nil
  then show ?case using triggers_nonempty by auto
next
  case (Cons c cs)
  have "match_trigger (c # cs) = None \<longleftrightarrow> trigger_at (c # cs) = None \<and> match_trigger cs = None"
    by (simp split: option.splits)
  also have "\<dots> \<longleftrightarrow> (\<forall>k \<in> set triggers. \<not> prefix k (c # cs)) \<and> (\<forall>k \<in> set triggers. \<not> sublist k cs)"
    by (simp add: trigger_at_None Cons.IH)
  also have "\<dots> \<longleftrightarrow> (\<forall>k \<in> set triggers. \<not> sublist k (c # cs))"
    by (auto simp: sublist_Cons_right)
  finally show ?case .
qed

lemma lower_wrap: "lower (''%'' @ t @ ''%'') = ''%'' @ lower t @ ''%''"
  by (simp add: lower_def lower_char_percent)



lemma user_data_matches_plain:
  "like_plain t \<Longrightarrow> user_data_matches (''%'' @ t @ ''%'') r \<longleftrightarrow> fact_contains t r"
proof -
  assume "like_plain t"
  then have h: "like (''%'' @ lower t @ ''%'') x \<longleftrightarrow> sublist (lower t) x" for x
    by (simp only: like_contains like_plain_lower)
  have "user_data_matches (''%'' @ t @ ''%'') r \<longleftrightarrow>
          sublist (lower t) (lower (category r)) \<or> sublist (lower t) (lower (data_key r)) \<or>
          sublist (lower t) (lower (data_value r))"
    by (simp only: user_data_matches_def lower_wrap h)
  then show ?thesis
    by (simp only: fact_contains_def contains_ci_def lower_toLowerCase)
qed


lemma pool_query_ok:
  "no_faults s \<Longrightarrow>
   pool_query q s =
     (None, s\<lparr>statements := statements s @ [q], clock := Suc (clock s), faults := tl (faults s)\<rparr>)"
  by (cases "faults s") (auto simp: pool_query_def no_faults_def)

lemma searchUserData_ok:
  "no_faults s \<Longrightarrow>
   searchUserData t s =
     (Inr (filter (user_data_matches (''%'' @ t @ ''%'')) (user_data s)),
      s\<lparr>statements := statements s @ [SearchUserData (''%'' @ t @ ''%'')],
        clock := Suc (clock s), faults := tl (faults s)\<rparr>)"
  by (simp add: searchUserData_def pool_query_ok del: append.simps)

section \<open>The resolver when the store accepts every statement\<close>

lemma pool_query_accepted: "no_faults s \<Longrightarrow> pool_query q s = (None, accepted q s)"
  by (simp add: pool_query_ok accepted_def)

lemma accepted_simps [simp]:
  "responses (accepted q s) = responses s"
  "user_data (accepted q s) = user_data s"
  "messages (accepted q s) = messages s"
  "statements (accepted q s) = statements s @ [q]"
  "console (accepted q s) = console s"
  by (simp_all add: accepted_def)

lemma no_faults_accepted [simp]: "no_faults s \<Longrightarrow> no_faults (accepted q s)"
  by (cases "faults s") (simp_all add: accepted_def no_faults_def)

lemma take1_filter: "take 1 (filter P xs) = (case find P xs of None \<Rightarrow> [] | Some x \<Rightarrow> [x])"
  by (induction xs) simp_all

lemma lower_of_toLowerCase: "lower (toLowerCase m) = toLowerCase m"
  by (induction m) (simp_all add: lower_def toLowerCase_def lower_char_idem)

lemma exact_rows_plain:
  assumes "list_all (\<lambda>r. like_plain (pattern r)) rows"
  shows "exact_rows (toLowerCase m) rows =
         (case find (\<lambda>r. starts_with_ci (pattern r) m) rows of None \<Rightarrow> [] | Some r \<Rightarrow> [r])"
proof -
  have "like (lower (pattern r) @ ''%'') (lower (toLowerCase m)) \<longleftrightarrow> starts_with_ci (pattern r) m"
    if "r \<in> set rows" for r
  proof -
    have "like_plain (lower (pattern r))"
      using assms that by (simp add: list_all_iff like_plain_lower)
    then show ?thesis
      by (simp only: like_starts_with starts_with_ci_def lower_of_toLowerCase)
        (simp only: lower_toLowerCase)
  qed
  then have "filter (\<lambda>r. like (lower (pattern r) @ ''%'') (lower (toLowerCase m))) rows =
             filter (\<lambda>r. starts_with_ci (pattern r) m) rows"
    by (auto intro: filter_cong)
  then show ?thesis
    by (simp only: exact_rows_def take1_filter)
qed

lemma fuzzy_rows_plain:
  assumes "list_all (\<lambda>r. like_plain (pattern r)) rows"
  shows "fuzzy_rows (toLowerCase m) rows =
         (case find (\<lambda>r. contains_ci (pattern r) m) rows of None \<Rightarrow> [] | Some r \<Rightarrow> [r])"
proof -
  have "ilike (''%'' @ pattern r @ ''%'') (toLowerCase m) \<longleftrightarrow> contains_ci (pattern r) m"
    if "r \<in> set rows" for r
  proof -
    have "like_plain (lower (pattern r))"
      using assms that by (simp add: list_all_iff like_plain_lower)
    then have "like (''%'' @ lower (pattern r) @ ''%'') x \<longleftrightarrow> sublist (lower (pattern r)) x" for x
      by (simp only: like_contains)
    then have "ilike (''%'' @ pattern r @ ''%'') (toLowerCase m) \<longleftrightarrow>
               sublist (lower (pattern r)) (lower (toLowerCase m))"
      by (simp only: ilike_def lower_wrap)
    then show ?thesis
      by (simp only: contains_ci_def lower_of_toLowerCase) (simp only: lower_toLowerCase)
  qed
  then have "filter (\<lambda>r. ilike (''%'' @ pattern r @ ''%'') (toLowerCase m)) rows =
             filter (\<lambda>r. contains_ci (pattern r) m) rows"
    by (auto intro: filter_cong)
  then show ?thesis
    by (simp only: fuzzy_rows_def take1_filter)
qed

lemma regular_response_no_faults:
  assumes "no_faults s"
  shows "regular_response message s =
     (if exact_rows (toLowerCase message) (responses s) = []
      then (Inr (TextReply (response_or_fallback (fuzzy_rows (toLowerCase message) (responses s)))),
            accepted (FuzzyQuery (toLowerCase message)) (accepted (ExactQuery (toLowerCase message)) s))
      else (Inr (TextReply (response_or_fallback (exact_rows (toLowerCase message) (responses s)))),
            accepted (ExactQuery (toLowerCase message)) s))"
  using assms by (simp add: regular_response_def pool_query_accepted)

lemma findResponse_try_no_faults:
  assumes "no_faults s"
  shows "findResponse_try message s =
     (case match_trigger (toLowerCase message) of
        None \<Rightarrow> regular_response message s
      | Some k \<Rightarrow>
          if data_rows message s = []
          then regular_response message
                 (accepted (SearchUserData (''%'' @ trim (strip_triggers (toLowerCase message)) @ ''%'')) s)
          else (Inr (DataReply (data_rows message s)),
                accepted (SearchUserData (''%'' @ trim (strip_triggers (toLowerCase message)) @ ''%'')) s))"
  using assms
  by (simp add: findResponse_try_def searchUserData_def pool_query_accepted data_rows_def Let_def
      split: option.splits del: append.simps)

lemma findResponse_fst_snd:
  "fst (findResponse message s) =
     (case fst (findResponse_try message s) of
        Inl e \<Rightarrow> Inl (Error ''Failed to process response'')
      | Inr r \<Rightarrow> Inr r)"
  "statements (snd (findResponse message s)) = statements (snd (findResponse_try message s))"
  by (simp_all add: findResponse_def console_error_def split: prod.splits sum.splits)

lemma pool_query_frame [simp]:
  "statements (snd (pool_query q s)) = statements s @ [q]"
  "messages (snd (pool_query q s)) = messages s"
  "responses (snd (pool_query q s)) = responses s"
  "user_data (snd (pool_query q s)) = user_data s"
  by (simp_all add: pool_query_def Let_def split: list.splits)

lemma regular_response_issued:
  "issued (regular_response m) s = [ExactQuery (toLowerCase m)] \<or>
   issued (regular_response m) s = [ExactQuery (toLowerCase m), FuzzyQuery (toLowerCase m)]"
proof -
  obtain r1 s1 where q1: "pool_query (ExactQuery (toLowerCase m)) s = (r1, s1)"
    by (cases "pool_query (ExactQuery (toLowerCase m)) s")
  have st1: "statements s1 = statements s @ [ExactQuery (toLowerCase m)]"
    using pool_query_frame(1) [of "ExactQuery (toLowerCase m)" s] q1 by simp
  obtain r2 s2 where q2: "pool_query (FuzzyQuery (toLowerCase m)) s1 = (r2, s2)"
    by (cases "pool_query (FuzzyQuery (toLowerCase m)) s1")
  have st2: "statements s2 = statements s @ [ExactQuery (toLowerCase m), FuzzyQuery (toLowerCase m)]"
    using pool_query_frame(1) [of "FuzzyQuery (toLowerCase m)" s1] q2 st1 by simp
  show ?thesis
    by (cases r1; cases r2) (simp_all add: issued_def regular_response_def q1 q2 st1 st2 Let_def)
qed

lemma regular_response_text: "fst (regular_response m s) = Inr r \<Longrightarrow> \<exists>t. r = TextReply t"
  by (auto simp: regular_response_def Let_def split: prod.splits option.splits if_splits)

lemma no_trigger_iff: "match_trigger s = None \<longleftrightarrow> \<not> (\<exists>k \<in> set triggers. sublist k s)"
  by (simp add: match_trigger_None)

section \<open>The seeded store, search terms made of triggers, the two passes\<close>

lemma initDb_empty_store: "initDb empty_store = seeded_store"
  by code_simp

lemma space_not_trigger: "isWhiteSpace c \<Longrightarrow> trigger_at (c # cs) = None"
  by (auto simp: trigger_at_def triggers_def isWhiteSpace_def)

lemma strip_triggers_keyword: "k \<in> set triggers \<Longrightarrow> strip_triggers (k @ rest) = strip_triggers rest"
  by (auto simp: triggers_def trigger_at_def)

lemma strip_triggers_parts:
  assumes "list_all (\<lambda>p. p \<in> set triggers \<or> (\<exists>c. isWhiteSpace c \<and> p = [c])) parts"
  shows "list_all isWhiteSpace (strip_triggers (concat parts))"
  using assms
proof (induction parts)
  case Nil
  then show ?case by simp
next
  case (Cons p parts)
  then have rest: "list_all isWhiteSpace (strip_triggers (concat parts))"
    by simp
  from Cons.prems consider "p \<in> set triggers" | c where "isWhiteSpace c" "p = [c]"
    by auto
  then show ?case
  proof cases
    case 1
    then show ?thesis using rest by (simp add: strip_triggers_keyword)
  next
    case 2
    then show ?thesis using rest by (simp add: space_not_trigger)
  qed
qed

lemma trim_spaces: "list_all isWhiteSpace s \<Longrightarrow> trim s = []"
proof -
  assume "list_all isWhiteSpace s"
  then have d: "dropWhile isWhiteSpace s = []"
    by (simp add: list_all_iff)
  show ?thesis
    by (simp only: trim_def d) simp
qed

lemma part_sublist_concat: "p \<in> set parts \<Longrightarrow> sublist p (concat parts)"
proof -
  assume "p \<in> set parts"
  then obtain xs ys where "parts = xs @ p # ys"
    by (auto dest: split_list)
  then have "concat parts = concat xs @ p @ concat ys"
    by simp
  then show ?thesis
    by (simp only: sublist_appendI)
qed

lemma matches_empty_term: "user_data_matches ''%%'' r"
  by (simp add: user_data_matches_def lower_def lower_char_percent like_percent)
    (use like_any in auto)

lemma regular_response_prefix:
  assumes "no_faults s" and "plain_patterns s"
    and "find (\<lambda>r. starts_with_ci (pattern r) message) (responses s) = Some r"
  shows "regular_response message s =
           (Inr (TextReply (if response r = [] then fallback else response r)),
            accepted (ExactQuery (toLowerCase message)) s)"
proof -
  have "exact_rows (toLowerCase message) (responses s) = [r]"
    using assms(2,3) by (simp add: exact_rows_plain plain_patterns_def)
  then show ?thesis
    by (simp add: regular_response_no_faults [OF assms(1)] response_or_fallback_def)
qed

lemma regular_response_fallback:
  assumes "no_faults s" and "plain_patterns s"
    and "list_all (\<lambda>r. \<not> starts_with_ci (pattern r) message \<and> \<not> contains_ci (pattern r) message)
           (responses s)"
  shows "fst (regular_response message s) = Inr (TextReply fallback)"
proof -
  have "find (\<lambda>r. starts_with_ci (pattern r) message) (responses s) = None"
    using assms(3) by (simp add: find_None_iff list_all_iff)
  then have e: "exact_rows (toLowerCase message) (responses s) = []"
    using assms(2) by (simp add: exact_rows_plain plain_patterns_def)
  have "find (\<lambda>r. contains_ci (pattern r) message) (responses s) = None"
    using assms(3) by (simp add: find_None_iff list_all_iff)
  then have f: "fuzzy_rows (toLowerCase message) (responses s) = []"
    using assms(2) by (simp add: fuzzy_rows_plain plain_patterns_def)
  show ?thesis
    by (simp add: regular_response_no_faults [OF assms(1)] e f response_or_fallback_def)
qed

lemma plain_patterns_accepted [simp]: "plain_patterns (accepted q s) = plain_patterns s"
  by (simp add: plain_patterns_def)

section \<open>What each operation does to the tables\<close>

lemma console_error_frame [simp]:
  "messages (console_error l s) = messages s"
  "statements (console_error l s) = statements s"
  "faults (console_error l s) = faults s"
  "console (console_error l s) = console s @ [l]"
  by (simp_all add: console_error_def)

lemma saveMessage_rejected:
  "faults s = Some e # rest \<Longrightarrow>
   fst (saveMessage c who s) = Inl (Error ''Failed to save message'')
   \<and> messages (snd (saveMessage c who s)) = messages s
   \<and> console (snd (saveMessage c who s)) = console s @ [''Error saving message:'']"
  by (simp add: saveMessage_def pool_query_def)

lemma saveMessage_saved:
  "saveMessage c who s = (Inr row, s1) \<Longrightarrow>
   messages s1 = messages s @ [row] \<and> content row = c \<and> sender row = who"
  by (auto simp: saveMessage_def pool_query_def Let_def split: list.splits option.splits)

lemma searchUserData_messages [simp]: "messages (snd (searchUserData t s)) = messages s"
proof -
  obtain r s1 where q: "pool_query (SearchUserData (''%'' @ t @ ''%'')) s = (r, s1)"
    by (cases "pool_query (SearchUserData (''%'' @ t @ ''%'')) s")
  then have "messages s1 = messages s"
    using pool_query_frame(2) [of "SearchUserData (''%'' @ t @ ''%'')" s] by simp
  then show ?thesis
    by (cases r) (simp_all add: searchUserData_def q del: append.simps)
qed

lemma regular_response_messages [simp]: "messages (snd (regular_response m s)) = messages s"
proof -
  obtain r1 s1 where q1: "pool_query (ExactQuery (toLowerCase m)) s = (r1, s1)"
    by (cases "pool_query (ExactQuery (toLowerCase m)) s")
  have m1: "messages s1 = messages s"
    using pool_query_frame(2) [of "ExactQuery (toLowerCase m)" s] q1 by simp
  obtain r2 s2 where q2: "pool_query (FuzzyQuery (toLowerCase m)) s1 = (r2, s2)"
    by (cases "pool_query (FuzzyQuery (toLowerCase m)) s1")
  have m2: "messages s2 = messages s"
    using pool_query_frame(2) [of "FuzzyQuery (toLowerCase m)" s1] q2 m1 by simp
  show ?thesis
    by (cases r1; cases r2) (simp_all add: regular_response_def q1 q2 m1 m2 Let_def)
qed

lemma findResponse_try_messages [simp]: "messages (snd (findResponse_try m s)) = messages s"
proof (cases "match_trigger (toLowerCase m)")
  case None
  then show ?thesis by (simp add: findResponse_try_def)
next
  case (Some k)
  let ?t = "trim (strip_triggers (toLowerCase m))"
  obtain r s1 where q: "searchUserData ?t s = (r, s1)"
    by (cases "searchUserData ?t s")
  have m1: "messages s1 = messages s"
    using searchUserData_messages [of ?t s] q by simp
  have "messages (snd (regular_response m s1)) = messages s"
    using m1 by simp
  then show ?thesis
    by (cases r) (simp_all add: findResponse_try_def Some q m1 Let_def)
qed

lemma findResponse_messages [simp]: "messages (snd (findResponse m s)) = messages s"
proof -
  obtain r s1 where q: "findResponse_try m s = (r, s1)"
    by (cases "findResponse_try m s")
  have "messages s1 = messages s"
    using findResponse_try_messages [of m s] q by simp
  then show ?thesis
    by (cases r) (simp_all add: findResponse_def q)
qed

lemma pool_query_messagesD: "pool_query q s = (r, s1) \<Longrightarrow> messages s1 = messages s"
  using pool_query_frame(2) [of q s] by simp

lemma JSON_stringify_nonempty: "JSON_stringify r \<noteq> []"
  by (cases r) (simp_all add: JSON_stringify_def)

lemma saveMessage_cases:
  "(\<exists>e. fst (saveMessage c who s) = Inl e \<and> messages (snd (saveMessage c who s)) = messages s)
   \<or> (\<exists>row. fst (saveMessage c who s) = Inr row
        \<and> messages (snd (saveMessage c who s)) = messages s @ [row]
        \<and> content row = c \<and> sender row = who)"
  by (auto simp: saveMessage_def pool_query_def Let_def split: list.splits option.splits)

lemma chat_failed_messages [simp]: "messages (snd (chat_failed e s)) = messages s"
  by (cases e) (simp add: chat_failed_def)

lemma chat_failed_status [simp]: "fst (chat_failed e s) \<noteq> Status200 r"
  by (cases e) (simp add: chat_failed_def)

lemma post_chat_messages:
  "messages (snd (post_chat body s)) = messages s
   \<or> (\<exists>u. messages (snd (post_chat body s)) = messages s @ [u]
         \<and> body = Some (content u) \<and> content u \<noteq> [] \<and> sender u = ''user'')
   \<or> (\<exists>u b r. messages (snd (post_chat body s)) = messages s @ [u, b]
         \<and> body = Some (content u) \<and> content u \<noteq> [] \<and> sender u = ''user''
         \<and> fst (post_chat body s) = Status200 r
         \<and> content b = JSON_stringify r \<and> sender b = ''bot'')"
proof (cases body)
  case None
  then show ?thesis by (simp add: post_chat_def)
next
  case (Some message)
  show ?thesis
  proof (cases "message = []")
    case True
    then show ?thesis by (simp add: post_chat_def Some)
  next
    case False
    obtain r1 s1 where q1: "saveMessage message ''user'' s = (r1, s1)"
      by (cases "saveMessage message ''user'' s")
    consider e where "r1 = Inl e" "messages s1 = messages s"
      | u where "r1 = Inr u" "messages s1 = messages s @ [u]" "content u = message" "sender u = ''user''"
      using saveMessage_cases [of message "''user''" s] q1 by auto
    then show ?thesis
    proof cases
      case 1
      then show ?thesis by (simp add: post_chat_def Some False q1)
    next
      case 2
      obtain r2 s2 where q2: "findResponse message s1 = (r2, s2)"
        by (cases "findResponse message s1")
      have m2: "messages s2 = messages s @ [u]"
        using findResponse_messages [of message s1] q2 2(2) by simp
      show ?thesis
      proof (cases r2)
        case (Inl e)
        then have "messages (snd (post_chat body s)) = messages s @ [u]"
          by (simp add: post_chat_def Some False q1 2(1) q2 m2)
        then show ?thesis using 2 False Some by auto
      next
        case (Inr answer)
        let ?reply = "case answer of DataReply rows \<Rightarrow> DataReply rows | TextReply t \<Rightarrow> TextReply t"
        obtain r3 s3 where q3: "saveMessage (JSON_stringify ?reply) ''bot'' s2 = (r3, s3)"
          by (cases "saveMessage (JSON_stringify ?reply) ''bot'' s2")
        have pc: "post_chat body s =
                    (case r3 of Inl e \<Rightarrow> chat_failed e s3 | Inr b \<Rightarrow> (Status200 ?reply, s3))"
          by (simp add: post_chat_def Some False q1 2(1) q2 Inr q3 Let_def)
        consider e where "r3 = Inl e" "messages s3 = messages s2"
          | b where "r3 = Inr b" "messages s3 = messages s2 @ [b]"
              "content b = JSON_stringify ?reply" "sender b = ''bot''"
          using saveMessage_cases [of "JSON_stringify ?reply" "''bot''" s2] q3 by auto
        then show ?thesis
        proof cases
          case 1
          then have "messages (snd (post_chat body s)) = messages s @ [u]"
            by (simp add: pc m2)
          then show ?thesis using 2 False Some by auto
        next
          case b: 2
          then have "messages (snd (post_chat body s)) = messages s @ [u, b]"
            "fst (post_chat body s) = Status200 ?reply"
            by (simp_all add: pc m2)
          then show ?thesis using 2 False Some b by blast
        qed
      qed
    qed
  qed
qed

lemma fold_insert_messages [simp]: "messages (fold insert_user_data vs s) = messages s"
  by (induction vs arbitrary: s) (auto simp: insert_user_data_def)

lemma fold_upsert_messages [simp]: "messages (fold upsert_response vs s) = messages s"
  by (induction vs arbitrary: s) (auto simp: upsert_response_def)

lemma initDb_messages [simp]: "messages (initDb s) = messages s"
proof -
  obtain r1 s1 where q1: "pool_query CreateTables s = (r1, s1)"
    by (cases "pool_query CreateTables s")
  obtain r2 s2 where q2: "pool_query SeedUserData s1 = (r2, s2)"
    by (cases "pool_query SeedUserData s1")
  obtain r3 s3 where q3: "pool_query SeedResponses (fold insert_user_data seed_user_data s2) = (r3, s3)"
    by (cases "pool_query SeedResponses (fold insert_user_data seed_user_data s2)")
  have "messages s1 = messages s" "messages s2 = messages s" "messages s3 = messages s"
    using pool_query_messagesD [OF q1] pool_query_messagesD [OF q2] pool_query_messagesD [OF q3]
    by simp_all
  then show ?thesis
    by (cases r1; cases r2; cases r3) (simp_all add: initDb_def q1 q2 q3)
qed

lemma delete_messages_messages:
  "messages (snd (delete_messages s)) = [] \<or> messages (snd (delete_messages s)) = messages s"
proof -
  obtain r s1 where q: "pool_query TruncateMessages s = (r, s1)"
    by (cases "pool_query TruncateMessages s")
  then show ?thesis
    using pool_query_messagesD [OF q] by (cases r) (simp_all add: delete_messages_def)
qed






lemma select_messages_frame:
  "select_messages lim off s = (r, s1) \<Longrightarrow>
   messages s1 = messages s
   \<and> (\<forall>rows. r = Inr rows \<longrightarrow>
         (\<exists>l k. bigint_in lim = Inr l \<and> bigint_in off = Inr k
            \<and> rows = take (nat l) (drop (nat k) (sort_key timestamp (messages s)))))"
  by (auto simp: select_messages_def split: prod.splits option.splits sum.splits if_splits
      dest: pool_query_messagesD)

lemma count_messages_frame:
  "count_messages s = (r, s1) \<Longrightarrow>
   messages s1 = messages s \<and> (\<forall>n. r = Inr n \<longrightarrow> n = int (length (messages s)))"
  by (auto simp: count_messages_def split: prod.splits option.splits dest: pool_query_messagesD)

lemma fetch_failed_frame [simp]:
  "messages (snd (fetch_failed e s)) = messages s"
  "fst (fetch_failed e s) \<noteq> Status200 h"
  by (cases e; simp add: fetch_failed_def)+

lemma get_messages_frame:
  "messages (snd (get_messages pp lp s)) = messages s
   \<and> (\<forall>h. fst (get_messages pp lp s) = Status200 h \<longrightarrow>
         (\<exists>l k. bigint_in (or_default lp 50) = Inr l
            \<and> bigint_in (js_times (js_minus_one (or_default pp 1)) (or_default lp 50)) = Inr k
            \<and> h = \<lparr>page_messages = take (nat l) (drop (nat k) (sort_key timestamp (messages s))),
                   currentPage = or_default pp 1,
                   totalPages = js_ceil_quotient (number_value (int (length (messages s))))
                                  (or_default lp 50),
                   totalMessages = number_value (int (length (messages s)))\<rparr>))"
proof -
  let ?l = "or_default lp 50"
  let ?o = "js_times (js_minus_one (or_default pp 1)) (or_default lp 50)"
  obtain r1 s1 where q1: "select_messages ?l ?o s = (r1, s1)"
    by (cases "select_messages ?l ?o s")
  obtain r2 s2 where q2: "count_messages s1 = (r2, s2)"
    by (cases "count_messages s1")
  note f1 = select_messages_frame [OF q1] and f2 = count_messages_frame [OF q2]
  show ?thesis
    using f1 f2 by (cases r1; cases r2) (auto simp: get_messages_def q1 q2 Let_def)
qed


lemma fold_insert_user_data:
  "map fact_of (user_data (fold insert_user_data vs s)) = map fact_of (user_data s) @ vs
   \<and> faults (fold insert_user_data vs s) = faults s
   \<and> responses (fold insert_user_data vs s) = responses s"
  by (induction vs arbitrary: s) (auto simp: insert_user_data_def fact_of_def)

lemma fold_upsert_response:
  "user_data (fold upsert_response vs s) = user_data s
   \<and> faults (fold upsert_response vs s) = faults s"
  by (induction vs arbitrary: s) (auto simp: upsert_response_def)

lemma no_faults_cong: "faults s' = faults s \<Longrightarrow> no_faults s' = no_faults s"
  by (simp add: no_faults_def)

lemma initDb_no_faults:
  assumes "no_faults s"
  shows "initDb s =
     fold upsert_response seed_responses
       (accepted SeedResponses
         (fold insert_user_data seed_user_data
           (accepted SeedUserData (accepted CreateTables s))))"
proof -
  let ?s2 = "accepted SeedUserData (accepted CreateTables s)"
  have "no_faults (fold insert_user_data seed_user_data ?s2)"
    using assms by (simp add: no_faults_cong [OF conjunct1 [OF conjunct2 [OF fold_insert_user_data]]])
  then show ?thesis
    using assms by (simp add: initDb_def pool_query_accepted)
qed

lemma initDb_user_data:
  assumes "no_faults s"
  shows "map fact_of (user_data (initDb s)) = map fact_of (user_data s) @ seed_user_data
         \<and> no_faults (initDb s)"
proof -
  let ?s3 = "accepted SeedResponses (fold insert_user_data seed_user_data
               (accepted SeedUserData (accepted CreateTables s)))"
  have "user_data (initDb s) = user_data ?s3" "faults (initDb s) = faults ?s3"
    by (simp_all add: initDb_no_faults [OF assms] fold_upsert_response)
  moreover have "no_faults ?s3"
    using assms by (simp add: no_faults_cong [OF conjunct1 [OF conjunct2 [OF fold_insert_user_data]]])
  ultimately show ?thesis
    by (simp add: fold_insert_user_data no_faults_def)
qed

lemma upsert_existing:
  "p \<in> set (map pattern (responses s)) \<Longrightarrow>
   responses (upsert_response (p, r) s) =
     map (\<lambda>row. if pattern row = p then row\<lparr>response := r\<rparr> else row) (responses s)"
  by (simp add: upsert_response_def)

lemma reseed_responses:
  assumes "responses s = responses seeded_store"
  shows "responses (fold upsert_response seed_responses s) = responses seeded_store"
  using assms by (simp add: seed_responses_def upsert_existing seeded_store_def)



section \<open>The tables the resolver reads\<close>

text \<open>
  No endpoint writes \<^verbatim>\<open>responses\<close> or \<^verbatim>\<open>user_data\<close>; only \<^const>\<open>initDb\<close> does, and the
  patterns it seeds have none of the characters that \<^verbatim>\<open>LIKE\<close> reads specially. So
  \<^const>\<open>plain_patterns\<close> holds in every state reached from \<^const>\<open>empty_store\<close>.
\<close>

lemma pool_query_tablesD: "pool_query q s = (r, s1) \<Longrightarrow> lookup_tables s1 = lookup_tables s"
  using pool_query_frame(3,4) [of q s] by (simp add: lookup_tables_def)

lemma lookup_tables_updates [simp]:
  "lookup_tables (console_error l s) = lookup_tables s"
  "lookup_tables (s\<lparr>messages := ms\<rparr>) = lookup_tables s"
  "lookup_tables (s\<lparr>messages_id_seq := n\<rparr>) = lookup_tables s"
  by (simp_all add: lookup_tables_def console_error_def)

lemma saveMessage_tables [simp]: "lookup_tables (snd (saveMessage c who s)) = lookup_tables s"
proof -
  obtain r s1 where q: "pool_query (InsertMessage c who) s = (r, s1)"
    by (cases "pool_query (InsertMessage c who) s")
  then show ?thesis
    using pool_query_tablesD [OF q] by (cases r) (simp_all add: saveMessage_def Let_def)
qed

lemma searchUserData_tables [simp]: "lookup_tables (snd (searchUserData t s)) = lookup_tables s"
proof -
  obtain r s1 where q: "pool_query (SearchUserData (''%'' @ t @ ''%'')) s = (r, s1)"
    by (cases "pool_query (SearchUserData (''%'' @ t @ ''%'')) s")
  then show ?thesis
    using pool_query_tablesD [OF q] by (cases r) (simp_all add: searchUserData_def del: append.simps)
qed

lemma regular_response_tables [simp]: "lookup_tables (snd (regular_response m s)) = lookup_tables s"
proof -
  obtain r1 s1 where q1: "pool_query (ExactQuery (toLowerCase m)) s = (r1, s1)"
    by (cases "pool_query (ExactQuery (toLowerCase m)) s")
  obtain r2 s2 where q2: "pool_query (FuzzyQuery (toLowerCase m)) s1 = (r2, s2)"
    by (cases "pool_query (FuzzyQuery (toLowerCase m)) s1")
  have "lookup_tables s1 = lookup_tables s" "lookup_tables s2 = lookup_tables s"
    using pool_query_tablesD [OF q1] pool_query_tablesD [OF q2] by simp_all
  then show ?thesis
    by (cases r1; cases r2) (simp_all add: regular_response_def q1 q2 Let_def)
qed

lemma findResponse_tables [simp]: "lookup_tables (snd (findResponse m s)) = lookup_tables s"
proof -
  let ?t = "trim (strip_triggers (toLowerCase m))"
  obtain r s1 where q: "searchUserData ?t s = (r, s1)"
    by (cases "searchUserData ?t s")
  have t1: "lookup_tables s1 = lookup_tables s"
    using searchUserData_tables [of ?t s] q by simp
  then have "lookup_tables (snd (regular_response m s1)) = lookup_tables s"
    by simp
  then have "lookup_tables (snd (findResponse_try m s)) = lookup_tables s"
    using t1
    by (cases "match_trigger (toLowerCase m)"; cases r) (simp_all add: findResponse_try_def q Let_def)
  then show ?thesis
    by (cases "findResponse_try m s"; cases "fst (findResponse_try m s)")
      (simp_all add: findResponse_def)
qed

lemma post_chat_tables [simp]: "lookup_tables (snd (post_chat body s)) = lookup_tables s"
proof (cases body)
  case None
  then show ?thesis by (simp add: post_chat_def)
next
  case (Some message)
  obtain r1 s1 where q1: "saveMessage message ''user'' s = (r1, s1)"
    by (cases "saveMessage message ''user'' s")
  obtain r2 s2 where q2: "findResponse message s1 = (r2, s2)"
    by (cases "findResponse message s1")
  have t: "lookup_tables s1 = lookup_tables s" "lookup_tables s2 = lookup_tables s"
    using saveMessage_tables [of message "''user''" s] findResponse_tables [of message s1] q1 q2
    by simp_all
  have fail: "lookup_tables (snd (chat_failed e s')) = lookup_tables s'" for e s'
    by (cases e) (simp add: chat_failed_def)
  have last: "lookup_tables (snd (saveMessage c ''bot'' s2)) = lookup_tables s" for c
    using t(2) by simp
  show ?thesis
  proof (cases "message = []")
    case True
    then show ?thesis by (simp add: post_chat_def Some)
  next
    case False
    show ?thesis
    proof (cases r1)
      case (Inl e)
      then show ?thesis by (simp add: post_chat_def Some False q1 fail t)
    next
      case u: (Inr u)
      show ?thesis
      proof (cases r2)
        case (Inl e)
        then show ?thesis by (simp add: post_chat_def Some False q1 u q2 fail t)
      next
        case (Inr answer)
        let ?c = "JSON_stringify (case answer of DataReply rows \<Rightarrow> DataReply rows
                                   | TextReply t \<Rightarrow> TextReply t)"
        obtain r3 s3 where q3: "saveMessage ?c ''bot'' s2 = (r3, s3)"
          by (cases "saveMessage ?c ''bot'' s2")
        then have "lookup_tables s3 = lookup_tables s"
          using last [of ?c] by simp
        then show ?thesis
          by (cases r3) (simp_all add: post_chat_def Some False q1 u q2 Inr q3 fail Let_def)
      qed
    qed
  qed
qed

lemma select_messages_tables: "select_messages lim off s = (r, s1) \<Longrightarrow> lookup_tables s1 = lookup_tables s"
  by (auto simp: select_messages_def split: prod.splits option.splits sum.splits if_splits
      dest: pool_query_tablesD)

lemma count_messages_tables: "count_messages s = (r, s1) \<Longrightarrow> lookup_tables s1 = lookup_tables s"
  by (auto simp: count_messages_def split: prod.splits option.splits dest: pool_query_tablesD)

lemma get_messages_tables [simp]: "lookup_tables (snd (get_messages pp lp s)) = lookup_tables s"
proof -
  let ?l = "or_default lp 50"
  let ?o = "js_times (js_minus_one (or_default pp 1)) (or_default lp 50)"
  obtain r1 s1 where q1: "select_messages ?l ?o s = (r1, s1)"
    by (cases "select_messages ?l ?o s")
  obtain r2 s2 where q2: "count_messages s1 = (r2, s2)"
    by (cases "count_messages s1")
  have t: "lookup_tables s1 = lookup_tables s" "lookup_tables s2 = lookup_tables s"
    using select_messages_tables [OF q1] count_messages_tables [OF q2] by simp_all
  have fail: "lookup_tables (snd (fetch_failed e s' :: history http \<times> server)) = lookup_tables s'"
    for e s'
    by (cases e) (simp add: fetch_failed_def)
  show ?thesis
    by (cases r1; cases r2) (simp_all add: get_messages_def q1 q2 t fail Let_def)
qed

lemma delete_messages_tables [simp]: "lookup_tables (snd (delete_messages s)) = lookup_tables s"
proof -
  obtain r s1 where q: "pool_query TruncateMessages s = (r, s1)"
    by (cases "pool_query TruncateMessages s")
  then show ?thesis
    using pool_query_tablesD [OF q] by (cases r) (simp_all add: delete_messages_def)
qed

lemma plain_patterns_tables: "lookup_tables s' = lookup_tables s \<Longrightarrow> plain_patterns s' = plain_patterns s"
  by (simp add: plain_patterns_def lookup_tables_def)

lemma plain_patterns_upsert:
  "plain_patterns s \<Longrightarrow> like_plain p \<Longrightarrow> plain_patterns (upsert_response (p, r) s)"
  by (auto simp: plain_patterns_def upsert_response_def list_all_iff)

lemma plain_patterns_seed:
  "plain_patterns s \<Longrightarrow> plain_patterns (fold upsert_response seed_responses s)"
  by (simp add: seed_responses_def plain_patterns_upsert like_plain_def)

lemma plain_patterns_initDb: "plain_patterns s \<Longrightarrow> plain_patterns (initDb s)"
proof -
  assume plain: "plain_patterns s"
  obtain r1 s1 where q1: "pool_query CreateTables s = (r1, s1)"
    by (cases "pool_query CreateTables s")
  obtain r2 s2 where q2: "pool_query SeedUserData s1 = (r2, s2)"
    by (cases "pool_query SeedUserData s1")
  obtain r3 s3 where q3: "pool_query SeedResponses (fold insert_user_data seed_user_data s2) = (r3, s3)"
    by (cases "pool_query SeedResponses (fold insert_user_data seed_user_data s2)")
  have "responses s1 = responses s" "responses s2 = responses s"
    using pool_query_frame(3) [of CreateTables s] pool_query_frame(3) [of SeedUserData s1] q1 q2
    by simp_all
  moreover have "responses s3 = responses (fold insert_user_data seed_user_data s2)"
    using pool_query_frame(3) [of SeedResponses "fold insert_user_data seed_user_data s2"] q3
    by simp
  ultimately have "plain_patterns s1" "plain_patterns s2" "plain_patterns s3"
    using plain by (simp_all add: plain_patterns_def fold_insert_user_data)
  moreover have "plain_patterns (console_error l t) = plain_patterns t" for l t
    by (simp add: plain_patterns_def console_error_def)
  ultimately show ?thesis
    by (cases r1; cases r2; cases r3) (simp_all add: initDb_def q1 q2 q3 plain_patterns_seed)
qed

lemma plain_patterns_reachable:
  "plain_patterns empty_store"
  "plain_patterns s \<Longrightarrow> plain_patterns (initDb s)"
  "plain_patterns s \<Longrightarrow> plain_patterns (snd (post_chat body s))"
  "plain_patterns s \<Longrightarrow> plain_patterns (snd (get_messages pp lp s))"
  "plain_patterns s \<Longrightarrow> plain_patterns (snd (delete_messages s))"
proof -
  show "plain_patterns empty_store"
    by (simp add: plain_patterns_def empty_store_def)
  show "plain_patterns s \<Longrightarrow> plain_patterns (initDb s)"
    by (rule plain_patterns_initDb)
  show "plain_patterns s \<Longrightarrow> plain_patterns (snd (post_chat body s))"
    by (simp only: plain_patterns_tables [OF post_chat_tables])
  show "plain_patterns s \<Longrightarrow> plain_patterns (snd (get_messages pp lp s))"
    by (simp only: plain_patterns_tables [OF get_messages_tables])
  show "plain_patterns s \<Longrightarrow> plain_patterns (snd (delete_messages s))"
    by (simp only: plain_patterns_tables [OF delete_messages_tables])
qed

section \<open>Messages without a trigger keyword\<close>

text \<open>
  Claim C7. When the lowercased message contains none of the trigger keywords,
  \<^const>\<open>findResponse\<close> sends no \<^verbatim>\<open>user_data\<close> search to the store, whatever the store does,
  every answer it returns is a text answer, and it does return one when the store
  accepts its statements.
\<close>

theorem no_trigger_no_search:
  assumes "\<not> (\<exists>k \<in> set triggers. sublist k (toLowerCase message))"
  shows "list_all (\<lambda>q. \<forall>p. q \<noteq> SearchUserData p) (issued (findResponse message) s)
         \<and> (\<forall>r. fst (findResponse message s) = Inr r \<longrightarrow> (\<exists>t. r = TextReply t))
         \<and> (no_faults s \<longrightarrow> (\<exists>t. fst (findResponse message s) = Inr (TextReply t)))"
proof -
  have none: "match_trigger (toLowerCase message) = None"
    using assms by (simp add: no_trigger_iff)
  have tr: "findResponse_try message s = regular_response message s"
    by (simp add: findResponse_try_def none)
  have "issued (findResponse message) s = issued (regular_response message) s"
    by (simp add: issued_def findResponse_fst_snd(2) tr)
  then have a: "list_all (\<lambda>q. \<forall>p. q \<noteq> SearchUserData p) (issued (findResponse message) s)"
    using regular_response_issued [of message s] by auto
  have b: "\<exists>t. r = TextReply t" if "fst (findResponse message s) = Inr r" for r
  proof -
    from that have "fst (regular_response message s) = Inr r"
      by (simp add: findResponse_fst_snd(1) tr split: sum.splits)
    then show ?thesis by (rule regular_response_text)
  qed
  have c: "\<exists>t. fst (findResponse message s) = Inr (TextReply t)" if "no_faults s"
    by (simp add: findResponse_fst_snd(1) tr regular_response_no_faults [OF that])
  from a b c show ?thesis by blast
qed


text \<open>The property at the message \<^verbatim>\<open>Hello\<close> on a store with nothing in it.\<close>

theorem no_trigger_no_search_witness:
  "\<not> (\<exists>k \<in> set triggers. sublist k (toLowerCase ''Hello''))
   \<and> list_all (\<lambda>q. \<forall>p. q \<noteq> SearchUserData p) (issued (findResponse ''Hello'') empty_store)
   \<and> (\<exists>t. fst (findResponse ''Hello'' empty_store) = Inr (TextReply t))"
proof -
  have "match_trigger (toLowerCase ''Hello'') = None"
    by code_simp
  then have h: "\<not> (\<exists>k \<in> set triggers. sublist k (toLowerCase ''Hello''))"
    by (simp add: no_trigger_iff)
  have ok: "no_faults empty_store"
    by (simp add: no_faults_def empty_store_def)
  show ?thesis
    using h ok no_trigger_no_search [OF h, of empty_store] by blast
qed

section \<open>Validation in \<^verbatim>\<open>POST /api/chat\<close>\<close>

text \<open>
  Claim C6. A request whose \<^verbatim>\<open>message\<close> is missing or empty is answered with status 400
  and the state is left exactly as it was: nothing is persisted, no statement reaches the
  store, so the resolver is not run and no reply is produced.
\<close>

theorem empty_message_rejected:
  "post_chat None s = (Status400 ''Message is required'', s)
   \<and> post_chat (Some []) s = (Status400 ''Message is required'', s)"
  by (simp add: post_chat_def)

section \<open>The data search\<close>

text \<open>
  Claim C2, as amended. For a message whose lowercased text contains a trigger keyword,
  let the term be that text with every trigger match removed and then trimmed. When the
  term has none of the characters \<^verbatim>\<open>%\<close>, \<^verbatim>\<open>_\<close> and backslash and the store accepts the
  statement, the search is containment without regard to case in \<^verbatim>\<open>category\<close>,
  \<^verbatim>\<open>data_key\<close> or \<^verbatim>\<open>data_value\<close>; if some row matches, \<^const>\<open>findResponse\<close> returns
  the data answer with exactly the matching rows, in store order, and the only statement
  it sends is that search, so no pattern is looked up.
\<close>

theorem data_search_plain:
  assumes "\<exists>k \<in> set triggers. sublist k (toLowerCase message)"
    and "like_plain (trim (strip_triggers (toLowerCase message)))"
    and "no_faults s"
    and "filter (fact_contains (trim (strip_triggers (toLowerCase message)))) (user_data s) \<noteq> []"
  shows "fst (findResponse message s) =
           Inr (DataReply (filter (fact_contains (trim (strip_triggers (toLowerCase message))))
                  (user_data s)))
         \<and> statements (snd (findResponse message s)) =
           statements s @ [SearchUserData (''%'' @ trim (strip_triggers (toLowerCase message)) @ ''%'')]"
proof -
  let ?t = "trim (strip_triggers (toLowerCase message))"
  obtain k where k: "match_trigger (toLowerCase message) = Some k"
    using assms(1) match_trigger_None [of "toLowerCase message"] by auto
  have rows: "filter (user_data_matches (''%'' @ ?t @ ''%'')) (user_data s) =
              filter (fact_contains ?t) (user_data s)"
    by (rule filter_cong) (simp_all only: user_data_matches_plain [OF assms(2)])
  have "findResponse_try message s =
          (Inr (DataReply (filter (fact_contains ?t) (user_data s))),
           s\<lparr>statements := statements s @ [SearchUserData (''%'' @ ?t @ ''%'')],
             clock := Suc (clock s), faults := tl (faults s)\<rparr>)"
    using assms(4) by (simp add: findResponse_try_def k searchUserData_ok [OF assms(3)] rows Let_def
        del: append.simps)
  then show ?thesis
    by (simp add: findResponse_def del: append.simps)
qed


text \<open>The amended property at \<^verbatim>\<open>Find NAME\<close> on the seeded store.\<close>

theorem data_search_plain_witness:
  "(\<exists>k \<in> set triggers. sublist k (toLowerCase ''Find NAME''))
   \<and> like_plain (trim (strip_triggers (toLowerCase ''Find NAME'')))
   \<and> no_faults seeded_store
   \<and> fst (findResponse ''Find NAME'' seeded_store) =
       Inr (DataReply [\<lparr>row_id = 1, category = ''personal'', data_key = ''name'',
                        data_value = ''John Doe''\<rparr>])
   \<and> statements (snd (findResponse ''Find NAME'' seeded_store)) =
       statements seeded_store @ [SearchUserData ''%name%'']"
proof -
  have "match_trigger (toLowerCase ''Find NAME'') \<noteq> None"
    by code_simp
  then have h1: "\<exists>k \<in> set triggers. sublist k (toLowerCase ''Find NAME'')"
    by (simp add: match_trigger_None)
  have tm: "trim (strip_triggers (toLowerCase ''Find NAME'')) = ''name''"
    by code_simp
  have h2: "like_plain (trim (strip_triggers (toLowerCase ''Find NAME'')))"
    unfolding tm by (simp add: like_plain_def)
  have h3: "no_faults seeded_store"
    by (simp add: no_faults_def seeded_store_def)
  have rows: "filter (fact_contains ''name'') (user_data seeded_store) =
     [\<lparr>row_id = 1, category = ''personal'', data_key = ''name'', data_value = ''John Doe''\<rparr>]"
    by code_simp
  have h4: "filter (fact_contains (trim (strip_triggers (toLowerCase ''Find NAME''))))
              (user_data seeded_store) \<noteq> []"
    unfolding tm rows by simp
  show ?thesis
    using h1 h2 h3 data_search_plain [OF h1 h2 h3 h4] unfolding tm rows by simp
qed

text \<open>
  The claim as it was stated fails at \<^verbatim>\<open>find joh_\<close> on the seeded store: the term is
  \<^verbatim>\<open>joh_\<close>, no row contains it, and yet the answer is a data answer with two rows, because
  \<^verbatim>\<open>_\<close> in the term stands for any character.
\<close>

theorem like_wildcard_counterexample:
  "trim (strip_triggers (toLowerCase ''find joh_'')) = ''joh_''
   \<and> filter (fact_contains ''joh_'') (user_data (initDb empty_store)) = []
   \<and> fst (findResponse ''find joh_'' (initDb empty_store)) =
       Inr (DataReply
         [\<lparr>row_id = 1, category = ''personal'', data_key = ''name'', data_value = ''John Doe''\<rparr>,
          \<lparr>row_id = 2, category = ''personal'', data_key = ''email'',
            data_value = ''john@example.com''\<rparr>])"
  unfolding initDb_empty_store by code_simp

section \<open>Messages made of trigger keywords and white space\<close>

text \<open>
  Claim C10. When the lowercased message is a concatenation of trigger keywords and
  white-space characters with at least one keyword, the search term is empty, the search
  with the empty term selects every row of \<^verbatim>\<open>user_data\<close>, and with a non-empty table and
  a store that accepts the statement \<^const>\<open>findResponse\<close> returns the data answer with
  all rows.
\<close>

theorem only_triggers_all_facts:
  assumes "toLowerCase message = concat parts"
    and "list_all (\<lambda>p. p \<in> set triggers \<or> (\<exists>c. isWhiteSpace c \<and> p = [c])) parts"
    and "\<exists>p \<in> set parts. p \<in> set triggers"
    and "user_data s \<noteq> []"
    and "no_faults s"
  shows "trim (strip_triggers (toLowerCase message)) = []
         \<and> filter (user_data_matches ''%%'') (user_data s) = user_data s
         \<and> fst (findResponse message s) = Inr (DataReply (user_data s))"
proof -
  have tm: "trim (strip_triggers (toLowerCase message)) = []"
    using strip_triggers_parts [OF assms(2)] by (simp add: assms(1) trim_spaces)
  obtain p where "p \<in> set parts" "p \<in> set triggers"
    using assms(3) by blast
  then have "\<exists>k \<in> set triggers. sublist k (toLowerCase message)"
    using part_sublist_concat [of p parts] by (auto simp: assms(1))
  then obtain k where k: "match_trigger (toLowerCase message) = Some k"
    using match_trigger_None [of "toLowerCase message"] by auto
  have every: "filter (user_data_matches ''%%'') (user_data s) = user_data s"
    by (simp add: matches_empty_term)
  have "data_rows message s = user_data s"
    by (simp add: data_rows_def k tm every)
  then have "findResponse_try message s =
     (Inr (DataReply (user_data s)),
      accepted (SearchUserData (''%'' @ trim (strip_triggers (toLowerCase message)) @ ''%'')) s)"
    using assms(4) by (simp add: findResponse_try_no_faults [OF assms(5)] k del: append.simps)
  then have "fst (findResponse message s) = Inr (DataReply (user_data s))"
    by (simp add: findResponse_fst_snd(1))
  then show ?thesis
    using tm every by simp
qed

text \<open>
  The property on the seeded store at \<^verbatim>\<open>Find\<close>, a no-break space and \<^verbatim>\<open>get\<close>.
\<close>

theorem only_triggers_all_facts_witness:
  "toLowerCase (''Find'' @ [CHR 0xA0] @ ''get'') = concat [''find'', [CHR 0xA0], ''get'']
   \<and> list_all (\<lambda>p. p \<in> set triggers \<or> (\<exists>c. isWhiteSpace c \<and> p = [c]))
         [''find'', [CHR 0xA0], ''get'']
   \<and> (\<exists>p \<in> set [''find'', [CHR 0xA0], ''get'']. p \<in> set triggers)
   \<and> user_data seeded_store \<noteq> []
   \<and> no_faults seeded_store
   \<and> trim (strip_triggers (toLowerCase (''Find'' @ [CHR 0xA0] @ ''get''))) = []
   \<and> fst (findResponse (''Find'' @ [CHR 0xA0] @ ''get'') seeded_store) =
       Inr (DataReply (user_data seeded_store))"
proof -
  have h1: "toLowerCase (''Find'' @ [CHR 0xA0] @ ''get'') = concat [''find'', [CHR 0xA0], ''get'']"
    by code_simp
  have h2: "list_all (\<lambda>p. p \<in> set triggers \<or> (\<exists>c. isWhiteSpace c \<and> p = [c]))
              [''find'', [CHR 0xA0], ''get'']"
    by (simp add: triggers_def isWhiteSpace_def)
  have h3: "\<exists>p \<in> set [''find'', [CHR 0xA0], ''get'']. p \<in> set triggers"
    by (simp add: triggers_def)
  have h4: "user_data seeded_store \<noteq> []"
    by (simp add: seeded_store_def)
  have h5: "no_faults seeded_store"
    by (simp add: no_faults_def seeded_store_def)
  show ?thesis
    using h1 h2 h3 h4 h5 only_triggers_all_facts [OF h1 h2 h3 h4 h5] by simp
qed

section \<open>The prefix pass and the containment pass\<close>

text \<open>
  Claim C3. Let the patterns of the table be free of \<^verbatim>\<open>%\<close>, \<^verbatim>\<open>_\<close> and backslash, as the
  seeded ones are, and let the store accept the statements. When some pattern is a prefix
  of the message without regard to case, pattern resolution answers with the response of
  the first such row in store order (the fallback text if that response is empty) and
  sends only the prefix query; the same answer comes out of \<^const>\<open>findResponse\<close>
  whenever the data search found nothing, and \<^const>\<open>findResponse\<close> never sends the
  containment query. Nothing is assumed about the other patterns, so the prefix match
  wins over any pattern that occurs elsewhere in the message.
\<close>

theorem prefix_pass_wins:
  assumes "no_faults s" and "plain_patterns s"
    and "find (\<lambda>r. starts_with_ci (pattern r) message) (responses s) = Some r"
  shows "fst (regular_response message s) =
           Inr (TextReply (if response r = [] then fallback else response r))
         \<and> issued (regular_response message) s = [ExactQuery (toLowerCase message)]
         \<and> (data_rows message s = [] \<longrightarrow>
              fst (findResponse message s) =
                Inr (TextReply (if response r = [] then fallback else response r)))
         \<and> list_all (\<lambda>q. \<forall>p. q \<noteq> FuzzyQuery p) (issued (findResponse message) s)"
proof -
  let ?t = "TextReply (if response r = [] then fallback else response r)"
  let ?search = "SearchUserData (''%'' @ trim (strip_triggers (toLowerCase message)) @ ''%'')"
  let ?exact = "ExactQuery (toLowerCase message)"
  have reg: "regular_response message s = (Inr ?t, accepted ?exact s)"
    using assms by (rule regular_response_prefix)
  have reg': "regular_response message (accepted ?search s) =
                (Inr ?t, accepted ?exact (accepted ?search s))"
    by (rule regular_response_prefix) (simp_all add: assms)
  have a: "fst (regular_response message s) = Inr ?t"
    by (simp add: reg)
  have b: "issued (regular_response message) s = [?exact]"
    by (simp add: issued_def reg)
  have c: "fst (findResponse message s) = Inr ?t" if "data_rows message s = []"
    by (simp add: findResponse_fst_snd(1) findResponse_try_no_faults [OF assms(1)] that reg reg'
        split: option.splits del: append.simps)
  have d: "list_all (\<lambda>q. \<forall>p. q \<noteq> FuzzyQuery p) (issued (findResponse message) s)"
    by (simp add: issued_def findResponse_fst_snd(2) findResponse_try_no_faults [OF assms(1)]
        reg reg' split: option.splits del: append.simps)
  from a b c d show ?thesis by blast
qed

text \<open>
  The property at \<^verbatim>\<open>Bye hello\<close> on the seeded store: \<^verbatim>\<open>bye\<close> is a prefix, \<^verbatim>\<open>hello\<close>
  occurs later in the message and is the earlier row, and the answer is the response
  of \<^verbatim>\<open>bye\<close>.
\<close>

theorem prefix_pass_wins_witness:
  "no_faults seeded_store \<and> plain_patterns seeded_store
   \<and> find (\<lambda>r. starts_with_ci (pattern r) ''Bye hello'') (responses seeded_store) =
       Some \<lparr>resp_id = 3, pattern = ''bye'', response = bye_response\<rparr>
   \<and> contains_ci ''hello'' ''Bye hello''
   \<and> data_rows ''Bye hello'' seeded_store = []
   \<and> fst (findResponse ''Bye hello'' seeded_store) = Inr (TextReply bye_response)
   \<and> issued (findResponse ''Bye hello'') seeded_store = [ExactQuery ''bye hello'']"
proof -
  have h1: "no_faults seeded_store"
    by (simp add: no_faults_def seeded_store_def)
  have h2: "plain_patterns seeded_store"
    by (simp add: plain_patterns_def like_plain_def seeded_store_def)
  have h3: "find (\<lambda>r. starts_with_ci (pattern r) ''Bye hello'') (responses seeded_store) =
       Some \<lparr>resp_id = 3, pattern = ''bye'', response = bye_response\<rparr>"
    by code_simp
  have other: "contains_ci ''hello'' ''Bye hello''"
    by code_simp
  have rows: "data_rows ''Bye hello'' seeded_store = []"
    by code_simp
  have ne: "bye_response \<noteq> []"
    by (simp add: bye_response_def)
  have iss: "issued (findResponse ''Bye hello'') seeded_store = [ExactQuery ''bye hello'']"
    by code_simp
  show ?thesis
    using h1 h2 h3 other rows iss ne prefix_pass_wins [OF h1 h2 h3] by simp
qed

section \<open>The fallback text\<close>

text \<open>
  Claim C5. With patterns free of \<^verbatim>\<open>%\<close>, \<^verbatim>\<open>_\<close> and backslash and a store that accepts
  the statements: when the data search finds no row for the message and no pattern is a
  prefix of the message or contained in it, without regard to case, \<^const>\<open>findResponse\<close>
  returns the text answer with exactly the fallback text.
\<close>

theorem fallback_when_nothing_matches:
  assumes "no_faults s" and "plain_patterns s"
    and "data_rows message s = []"
    and "list_all (\<lambda>r. \<not> starts_with_ci (pattern r) message \<and> \<not> contains_ci (pattern r) message)
           (responses s)"
  shows "fst (findResponse message s) = Inr (TextReply fallback)"
proof -
  let ?search = "SearchUserData (''%'' @ trim (strip_triggers (toLowerCase message)) @ ''%'')"
  have reg: "fst (regular_response message s) = Inr (TextReply fallback)"
    using assms(1,2,4) by (rule regular_response_fallback)
  have reg': "fst (regular_response message (accepted ?search s)) = Inr (TextReply fallback)"
    by (rule regular_response_fallback) (simp_all add: assms)
  show ?thesis
    by (simp add: findResponse_fst_snd(1) findResponse_try_no_faults [OF assms(1)] assms(3)
        reg reg' split: option.splits del: append.simps)
qed

text \<open>
  The property at \<^verbatim>\<open>please show me the name\<close> on the seeded store, where the trigger
  \<^verbatim>\<open>show\<close> is found and the search for the remaining words finds nothing.
\<close>

theorem fallback_when_nothing_matches_witness:
  "no_faults seeded_store \<and> plain_patterns seeded_store
   \<and> match_trigger (toLowerCase ''please show me the name'') = Some ''show''
   \<and> data_rows ''please show me the name'' seeded_store = []
   \<and> list_all (\<lambda>r. \<not> starts_with_ci (pattern r) ''please show me the name''
                    \<and> \<not> contains_ci (pattern r) ''please show me the name'')
        (responses seeded_store)
   \<and> fst (findResponse ''please show me the name'' seeded_store) = Inr (TextReply fallback)"
proof -
  have h1: "no_faults seeded_store"
    by (simp add: no_faults_def seeded_store_def)
  have h2: "plain_patterns seeded_store"
    by (simp add: plain_patterns_def like_plain_def seeded_store_def)
  have tr: "match_trigger (toLowerCase ''please show me the name'') = Some ''show''"
    by code_simp
  have h3: "data_rows ''please show me the name'' seeded_store = []"
    by code_simp
  have h4: "list_all (\<lambda>r. \<not> starts_with_ci (pattern r) ''please show me the name''
                    \<and> \<not> contains_ci (pattern r) ''please show me the name'')
        (responses seeded_store)"
    by code_simp
  show ?thesis
    using h1 h2 tr h3 h4 fallback_when_nothing_matches [OF h1 h2 h3 h4] by simp
qed

section \<open>A turn whose reply cannot be stored\<close>

text \<open>
  Claim C1, as amended. In \<^const>\<open>post_chat\<close>, when the user's message has been stored and
  the answer computed, a rejected insert of the bot's message is logged by
  \<^const>\<open>saveMessage\<close> and raised again; the handler's single \<^verbatim>\<open>catch\<close> logs it and answers
  with status 500 and the message \<^verbatim>\<open>Failed to save message\<close>. The reply is not sent to the
  caller; the user's message stays stored and the bot's is not.
\<close>

theorem bot_persist_failure_fails_turn:
  assumes "message \<noteq> []"
    and "saveMessage message ''user'' s = (Inr saved, s1)"
    and "findResponse message s1 = (Inr answer, s2)"
    and "faults s2 = Some e # rest"
  shows "fst (post_chat (Some message) s) =
           Status500 ''Internal server error'' ''Failed to save message''
         \<and> messages (snd (post_chat (Some message) s)) = messages s @ [saved]
         \<and> console (snd (post_chat (Some message) s)) =
             console s2 @ [''Error saving message:'', ''Error processing message:'']"
proof -
  let ?reply = "case answer of DataReply rows \<Rightarrow> DataReply rows | TextReply t \<Rightarrow> TextReply t"
  obtain r s3 where q: "saveMessage (JSON_stringify ?reply) ''bot'' s2 = (r, s3)"
    by (cases "saveMessage (JSON_stringify ?reply) ''bot'' s2")
  have rej: "r = Inl (Error ''Failed to save message'')" "messages s3 = messages s2"
      "console s3 = console s2 @ [''Error saving message:'']"
    using saveMessage_rejected [OF assms(4), of "JSON_stringify ?reply" "''bot''"] q by simp_all
  have "messages s2 = messages s1"
    using findResponse_messages [of message s1] assms(3) by simp
  then have msgs: "messages s3 = messages s @ [saved]"
    using rej(2) saveMessage_saved [OF assms(2)] by simp
  have "post_chat (Some message) s =
          chat_failed (Error ''Failed to save message'') s3"
    using assms(1) by (simp add: post_chat_def assms(2,3) q rej(1) Let_def)
  then show ?thesis
    by (simp add: chat_failed_def msgs rej(3))
qed

text \<open>The amended property at \<^verbatim>\<open>hello\<close> on the seeded store, the third statement rejected.\<close>

theorem bot_persist_failure_fails_turn_witness:
  "fst (saveMessage ''hello'' ''user'' (seeded_store\<lparr>faults := [None, None, Some ''connection lost'']\<rparr>)) =
     Inr \<lparr>msg_id = 1, content = ''hello'', sender = ''user'', timestamp = 4\<rparr>
   \<and> fst (findResponse ''hello''
        (snd (saveMessage ''hello'' ''user''
          (seeded_store\<lparr>faults := [None, None, Some ''connection lost'']\<rparr>)))) =
     Inr (TextReply hello_response)
   \<and> fst (post_chat (Some ''hello'') (seeded_store\<lparr>faults := [None, None, Some ''connection lost'']\<rparr>)) =
     Status500 ''Internal server error'' ''Failed to save message''
   \<and> messages (snd (post_chat (Some ''hello'')
        (seeded_store\<lparr>faults := [None, None, Some ''connection lost'']\<rparr>))) =
     [\<lparr>msg_id = 1, content = ''hello'', sender = ''user'', timestamp = 4\<rparr>]"
proof -
  let ?s = "seeded_store\<lparr>faults := [None, None, Some ''connection lost'']\<rparr>"
  let ?u = "\<lparr>msg_id = 1, content = ''hello'', sender = ''user'', timestamp = 4\<rparr>"
  let ?s1 = "snd (saveMessage ''hello'' ''user'' ?s)"
  let ?s2 = "snd (findResponse ''hello'' ?s1)"
  have f1: "fst (saveMessage ''hello'' ''user'' ?s) = Inr ?u"
    by code_simp
  have f2: "fst (findResponse ''hello'' ?s1) = Inr (TextReply hello_response)"
    by code_simp
  have h1: "''hello'' \<noteq> []"
    by simp
  have h2: "saveMessage ''hello'' ''user'' ?s = (Inr ?u, ?s1)"
    using f1 by (simp add: prod_eq_iff)
  have h3: "findResponse ''hello'' ?s1 = (Inr (TextReply hello_response), ?s2)"
    using f2 by (simp add: prod_eq_iff)
  have h4: "faults ?s2 = Some ''connection lost'' # []"
    by code_simp
  have m: "messages ?s = []"
    by (simp add: seeded_store_def)
  show ?thesis
    using f1 f2 bot_persist_failure_fails_turn [OF h1 h2 h3 h4] by (simp add: m)
qed

text \<open>
  The claim as it was stated fails there: the answer for \<^verbatim>\<open>hello\<close> has been computed, the
  insert of the bot's message is rejected, and the caller receives status 500 instead of
  the reply.
\<close>

theorem bot_persist_failure_counterexample:
  "fst (findResponse ''hello''
     (snd (saveMessage ''hello'' ''user''
       ((initDb empty_store)\<lparr>faults := [None, None, Some ''connection lost'']\<rparr>)))) =
     Inr (TextReply hello_response)
   \<and> fst (post_chat (Some ''hello'')
       ((initDb empty_store)\<lparr>faults := [None, None, Some ''connection lost'']\<rparr>)) =
     Status500 ''Internal server error'' ''Failed to save message''"
  unfolding initDb_empty_store by code_simp

section \<open>Running the bootstrap twice\<close>

text \<open>
  Claim C4 at two runs of \<^const>\<open>initDb\<close> from a database with nothing in it. The
  \<^verbatim>\<open>responses\<close> table is the same after the second run as after the first, but
  \<^verbatim>\<open>user_data\<close> holds every seed row twice, eight rows: its \<^verbatim>\<open>ON CONFLICT DO NOTHING\<close>
  has no unique column to conflict on. Lemma \<open>initDb_user_data\<close> shows that every run the
  store accepts appends the four seed rows.
\<close>

theorem initDb_twice_duplicates_user_data:
  "map fact_of (user_data (initDb empty_store)) = seed_user_data
   \<and> map fact_of (user_data (initDb (initDb empty_store))) = seed_user_data @ seed_user_data
   \<and> length (user_data (initDb (initDb empty_store))) = 8
   \<and> responses (initDb (initDb empty_store)) = responses (initDb empty_store)"
proof -
  have e: "no_faults empty_store" "user_data empty_store = []"
    by (simp_all add: no_faults_def empty_store_def)
  have one: "map fact_of (user_data (initDb empty_store)) = seed_user_data"
    using initDb_user_data [OF e(1)] by (simp add: e(2))
  have ok: "no_faults (initDb empty_store)"
    using initDb_user_data [OF e(1)] by simp
  have two: "map fact_of (user_data (initDb (initDb empty_store))) = seed_user_data @ seed_user_data"
    using initDb_user_data [OF ok] by (simp add: one)
  have "length (map fact_of (user_data (initDb (initDb empty_store)))) = 8"
    unfolding two by (simp add: seed_user_data_def)
  then have len: "length (user_data (initDb (initDb empty_store))) = 8"
    by simp
  have "responses (initDb seeded_store) = responses seeded_store"
    using ok unfolding initDb_empty_store
    by (simp add: initDb_no_faults reseed_responses fold_insert_user_data)
  then have resp: "responses (initDb (initDb empty_store)) = responses (initDb empty_store)"
    by (simp add: initDb_empty_store)
  from one two len resp show ?thesis by simp
qed

section \<open>Clearing and fetching the history\<close>



section \<open>The messages a turn stores\<close>

text \<open>
  Claim C9. \<^const>\<open>post_chat\<close> only appends to the messages, and what it appends is
  nothing, or the user's message (the validated non-empty text, sender \<^verbatim>\<open>user\<close>), or that
  followed by the bot's message (the JSON text of the reply that is returned, sender
  \<^verbatim>\<open>bot\<close>); each appended message has a non-empty content and a sender in
  \<^verbatim>\<open>{user, bot}\<close>. If all stored messages have this property, they still have it after
  \<^const>\<open>post_chat\<close>, \<^const>\<open>delete_messages\<close>, \<^const>\<open>get_messages\<close> and \<^const>\<open>initDb\<close>.
\<close>

theorem messages_invariant:
  "(\<exists>new. messages (snd (post_chat body s)) = messages s @ new \<and> list_all message_ok new
      \<and> (new = []
          \<or> (\<exists>u. new = [u] \<and> body = Some (content u) \<and> sender u = ''user'')
          \<or> (\<exists>u b r. new = [u, b] \<and> body = Some (content u) \<and> sender u = ''user''
                \<and> fst (post_chat body s) = Status200 r
                \<and> content b = JSON_stringify r \<and> sender b = ''bot'')))
   \<and> (list_all message_ok (messages s) \<longrightarrow>
         list_all message_ok (messages (snd (post_chat body s)))
         \<and> list_all message_ok (messages (snd (delete_messages s)))
         \<and> list_all message_ok (messages (snd (get_messages pp lp s)))
         \<and> list_all message_ok (messages (initDb s)))"
proof -
  let ?after = "messages (snd (post_chat body s))"
  consider "?after = messages s"
    | u where "?after = messages s @ [u]" "body = Some (content u)" "content u \<noteq> []"
        "sender u = ''user''"
    | u b r where "?after = messages s @ [u, b]" "body = Some (content u)" "content u \<noteq> []"
        "sender u = ''user''" "fst (post_chat body s) = Status200 r"
        "content b = JSON_stringify r" "sender b = ''bot''"
    using post_chat_messages [of body s] by blast
  then have new: "\<exists>new. ?after = messages s @ new \<and> list_all message_ok new
      \<and> (new = []
          \<or> (\<exists>u. new = [u] \<and> body = Some (content u) \<and> sender u = ''user'')
          \<or> (\<exists>u b r. new = [u, b] \<and> body = Some (content u) \<and> sender u = ''user''
                \<and> fst (post_chat body s) = Status200 r
                \<and> content b = JSON_stringify r \<and> sender b = ''bot''))"
  proof cases
    case 1
    then show ?thesis by simp
  next
    case 2
    then have "list_all message_ok [u]"
      by (simp add: message_ok_def)
    with 2 show ?thesis by blast
  next
    case 3
    then have "list_all message_ok [u, b]"
      by (simp add: message_ok_def JSON_stringify_nonempty)
    with 3 show ?thesis by blast
  qed
  have keep: "list_all message_ok ?after
         \<and> list_all message_ok (messages (snd (delete_messages s)))
         \<and> list_all message_ok (messages (snd (get_messages pp lp s)))
         \<and> list_all message_ok (messages (initDb s))"
    if inv: "list_all message_ok (messages s)"
  proof -
    have "list_all message_ok ?after"
      using new inv by auto
    moreover have "list_all message_ok (messages (snd (delete_messages s)))"
      using delete_messages_messages [of s] inv by auto
    moreover have "list_all message_ok (messages (snd (get_messages pp lp s)))"
      using get_messages_frame [of pp lp s] inv by simp
    moreover have "list_all message_ok (messages (initDb s))"
      using inv by simp
    ultimately show ?thesis by blast
  qed
  from new keep show ?thesis by blast
qed

text \<open>The property at one turn \<^verbatim>\<open>hello\<close> on the seeded store.\<close>

theorem messages_invariant_witness:
  "list_all message_ok (messages seeded_store)
   \<and> map (\<lambda>m. (sender m, content m)) (messages (snd (post_chat (Some ''hello'') seeded_store))) =
       [(''user'', ''hello''), (''bot'', JSON_stringify (TextReply hello_response))]
   \<and> list_all message_ok (messages (snd (post_chat (Some ''hello'') seeded_store)))"
proof -
  have h: "list_all message_ok (messages seeded_store)"
    by (simp add: seeded_store_def)
  have rows: "map (\<lambda>m. (sender m, content m)) (messages (snd (post_chat (Some ''hello'') seeded_store))) =
       [(''user'', ''hello''), (''bot'', JSON_stringify (TextReply hello_response))]"
    by code_simp
  show ?thesis
    using h rows messages_invariant [of "Some ''hello''" seeded_store] by blast
qed

end
